theory Spec2Isabelle
  imports Main "HOL-Library.Multiset" "HOL-Library.AList"
begin

section \<open>The service object: configuration and service-level caches\<close>

text \<open>
  Values thrown by the code: a JavaScript \<open>Error\<close> or \<open>TypeError\<close>, each with its message.
  An \<open>Error\<close> is also what a failing git subprocess rejects with. A \<open>TypeError\<close> is what the
  runtime throws when a property of \<open>undefined\<close> is read; its message is the engine's (here
  that of V8 at the time of the code), and no statement below depends on its text.
\<close>

datatype error = Error string | TypeError string

definition cannotReadProperty :: "string \<Rightarrow> error" where
  "cannotReadProperty p =
     TypeError (''Cannot read property '' @ [CHR 0x27] @ p @ [CHR 0x27] @ '' of undefined'')"

text \<open>
  \<open>RepositoryChange\<close> and \<open>RepositoryChangeEvent\<close> are declared in git/models/repository.ts.
  The service names three members of the enum; every other member is \<open>OtherChange\<close>. An event
  is used through its method \<open>changed(change, solely = false)\<close> only, so it is modelled by
  that method.
\<close>

datatype RepositoryChange = Config | Closed | Stashes | OtherChange string

record RepositoryChangeEvent =
  changed :: "RepositoryChange \<Rightarrow> bool \<Rightarrow> bool"

text \<open>
  Modelled from the spec: the body of \<open>RepositoryChangeEvent.changed\<close> is not part of the
  sources at hand. An event carries the list of changes it reports; \<open>changed c True\<close> asks
  whether \<open>c\<close> is the only change reported ("stash-only changes"), \<open>changed c False\<close>
  whether \<open>c\<close> is among them.
\<close>

definition changesEvent :: "RepositoryChange list \<Rightarrow> RepositoryChangeEvent" where
  "changesEvent cs =
     \<lparr>changed = (\<lambda>c solely. if solely then cs = [c] else c \<in> set cs)\<rparr>"

record Repository =
  repo_path :: string
  supportsChangeEvents :: bool

text \<open>An entry of \<open>_trackedCache\<close>: \<open>boolean | Promise<boolean>\<close>.\<close>

datatype tracked = TrackedValue bool | TrackedPromise nat

text \<open>The git subprocesses the modelled operations start (the static methods of \<open>Git\<close>).\<close>

datatype GitCommand =
    Git_tag string
  | Git_for_each_ref__branch string
  | Git_blame string string "string option"
  | Git_blame__contents string string string
  | Git_show__diff string string string "string option"
  | Git_diff string string "string option" "string option"
  | Git_log__file string string "string option"
  | Git_log string "string option"

text \<open>
  The fields of \<open>GitService\<close>, with \<open>Container.config.advanced.caching.enabled\<close> (read by the
  getter \<open>useCaching\<close>). Two fields record effects: \<open>immediates\<close> counts the callbacks handed to
  \<open>setImmediate\<close>, \<open>spawned\<close> is the list of git subprocesses started so far. Branches and tags
  are the values of the parsers, kept abstract.
\<close>

record ('b, 't) GitService =
  useCaching :: bool
  branchesCache :: "string \<rightharpoonup> 'b list"
  tagsCache :: "string \<rightharpoonup> 't list"
  trackedCache :: "string \<rightharpoonup> tracked"
  userMapCache :: "string \<rightharpoonup> (string option \<times> string option) option"
  immediates :: nat
  spawned :: "GitCommand list"

subsection \<open>onAnyRepositoryChanged\<close>

definition onAnyRepositoryChanged ::
  "('b, 't) GitService \<Rightarrow> Repository \<Rightarrow> RepositoryChangeEvent \<Rightarrow> ('b, 't) GitService" where
  "onAnyRepositoryChanged s repo e =
     (if changed e Stashes True then s
      else
        let s1 = s\<lparr>branchesCache := (branchesCache s)(repo_path repo := None)\<rparr>;
            s2 = s1\<lparr>tagsCache := (tagsCache s1)(repo_path repo := None)\<rparr>;
            s3 = s2\<lparr>trackedCache := Map.empty\<rparr>;
            s4 = (if changed e Config False
                  then s3\<lparr>userMapCache := (userMapCache s3)(repo_path repo := None)\<rparr> else s3)
        in if changed e Closed False then s4\<lparr>immediates := immediates s4 + 1\<rparr> else s4)"

subsection \<open>getBranches and getTags\<close>

text \<open>
  What the two operations await: the git subprocess (which may reject), the parser, the
  current-branch lookup \<open>getBranch\<close> and \<open>getRepository\<close>. \<open>sortBranches\<close> and \<open>sortTags\<close>
  stand for \<open>GitBranch.sort\<close> and \<open>GitTag.sort\<close>, which sort the array they are given in place.
\<close>

record ('b, 't) RefsEnv =
  run_for_each_ref__branch :: "string \<Rightarrow> error + string option"
  GitBranchParser_parse :: "string \<Rightarrow> string \<Rightarrow> 'b list"
  getBranch :: "string \<Rightarrow> 'b option"
  run_tag :: "string \<Rightarrow> error + string"
  GitTagParser_parse :: "string \<Rightarrow> string \<Rightarrow> 't list option"
  getRepository :: "string \<Rightarrow> Repository option"
  sortBranches :: "'b list \<Rightarrow> 'b list"
  sortTags :: "'t list \<Rightarrow> 't list"

record 'a RefsOptions =
  filter_opt :: "('a \<Rightarrow> bool) option"
  sort_opt :: bool

text \<open>
  The \<open>finally\<close> block shared by both operations. \<open>completion\<close> is how the \<open>try\<close> block
  ended, \<open>xs\<close> the local array at that point (\<open>None\<close> when still \<open>undefined\<close>), and \<open>cached\<close>
  tells whether that array is the very object held by the cache: sorting it in place then
  sorts the cache entry too, which \<open>store\<close> writes back. With a filter the block returns the
  filtered copy, replacing the completion of the \<open>try\<close> block; a method call on \<open>undefined\<close>
  throws.
\<close>

definition refsFinally ::
  "'a RefsOptions \<Rightarrow> ('a list \<Rightarrow> 'a list) \<Rightarrow> ('a list \<Rightarrow> 's \<Rightarrow> 's) \<Rightarrow>
   (error + 'a list) \<Rightarrow> 'a list option \<Rightarrow> bool \<Rightarrow> 's \<Rightarrow> (error + 'a list) \<times> 's" where
  "refsFinally options sortf store completion xs cached s =
     (case filter_opt options of
        Some f \<Rightarrow>
          (case xs of
             None \<Rightarrow> (Inl (cannotReadProperty ''filter''), s)
           | Some ys \<Rightarrow>
               (Inr (if sort_opt options then sortf (filter f ys) else filter f ys), s))
      | None \<Rightarrow>
          if sort_opt options then
            (case xs of
               None \<Rightarrow> (Inl (cannotReadProperty ''sort''), s)
             | Some ys \<Rightarrow>
                 (case completion of
                    Inl ex \<Rightarrow> (Inl ex, if cached then store (sortf ys) s else s)
                  | Inr _ \<Rightarrow> (Inr (sortf ys), if cached then store (sortf ys) s else s)))
          else (completion, s))"

definition getBranches ::
  "('b, 't) RefsEnv \<Rightarrow> ('b, 't) GitService \<Rightarrow> string option \<Rightarrow> 'b RefsOptions \<Rightarrow>
   (error + 'b list) \<times> ('b, 't) GitService" where
  "getBranches env s repoPath options =
     (case repoPath of
        None \<Rightarrow> (Inr [], s)
      | Some rp \<Rightarrow>
          let fin = refsFinally options (sortBranches env)
                      (\<lambda>ys t. t\<lparr>branchesCache := (branchesCache t)(rp \<mapsto> ys)\<rparr>)
          in
          (case (if useCaching s then branchesCache s rp else None) of
             Some branches \<Rightarrow> fin (Inr branches) (Some branches) True s
           | None \<Rightarrow>
               let s1 = s\<lparr>spawned := spawned s @ [Git_for_each_ref__branch rp]\<rparr> in
               (case run_for_each_ref__branch env rp of
                  Inl ex \<Rightarrow> fin (Inl ex) None False s1
                | Inr data \<Rightarrow>
                    let current = (case getBranch env rp of Some b \<Rightarrow> [b] | None \<Rightarrow> []);
                        branches =
                          (case data of
                             None \<Rightarrow> current
                           | Some d \<Rightarrow> if d = [] then current else GitBranchParser_parse env d rp);
                        store = (useCaching s1 \<and>
                                 (case getRepository env rp of
                                    Some repo \<Rightarrow> supportsChangeEvents repo
                                  | None \<Rightarrow> False));
                        s2 = (if store
                              then s1\<lparr>branchesCache := (branchesCache s1)(rp \<mapsto> branches)\<rparr>
                              else s1)
                    in fin (Inr branches) (Some branches) store s2)))"

definition getTags ::
  "('b, 't) RefsEnv \<Rightarrow> ('b, 't) GitService \<Rightarrow> string option \<Rightarrow> 't RefsOptions \<Rightarrow>
   (error + 't list) \<times> ('b, 't) GitService" where
  "getTags env s repoPath options =
     (case repoPath of
        None \<Rightarrow> (Inr [], s)
      | Some rp \<Rightarrow>
          let fin = refsFinally options (sortTags env)
                      (\<lambda>ys t. t\<lparr>tagsCache := (tagsCache t)(rp \<mapsto> ys)\<rparr>)
          in
          (case tagsCache s rp of
             Some tags \<Rightarrow> fin (Inr tags) (Some tags) True s
           | None \<Rightarrow>
               let s1 = s\<lparr>spawned := spawned s @ [Git_tag rp]\<rparr> in
               (case run_tag env rp of
                  Inl ex \<Rightarrow> fin (Inl ex) None False s1
                | Inr data \<Rightarrow>
                    let tags = (case GitTagParser_parse env data rp of
                                  Some ts \<Rightarrow> ts | None \<Rightarrow> []);
                        store = (case getRepository env rp of
                                   Some repo \<Rightarrow> supportsChangeEvents repo
                                 | None \<Rightarrow> False);
                        s2 = (if store
                              then s1\<lparr>tagsCache := (tagsCache s1)(rp \<mapsto> tags)\<rparr>
                              else s1)
                    in fin (Inr tags) (Some tags) store s2)))"

section \<open>Git statics, configuration and uris\<close>

text \<open>
  A \<open>GitUri\<close>, reduced to the three fields the retrieval operations read. \<open>GitUri.fromFile\<close>
  resolves the file name against the repository path and keeps the ref as \<open>sha\<close> unless it is
  empty or denotes the (unstaged) working tree.
\<close>

record GitUri =
  uri_fsPath :: string
  uri_repoPath :: "string option"
  uri_sha :: "string option"

text \<open>
  The constants and pure helpers of \<open>Git\<close> (git/git.ts), \<open>Strings\<close> and \<open>paths\<close> that the
  service uses, and the configuration values it reads from \<open>Container.config.advanced\<close>.
  Their declarations are not part of the sources at hand, so they are parameters.
  \<open>documentKey\<close> is the key under which \<open>Container.tracker.getOrAdd\<close> files the tracked
  document of a uri.
\<close>

record Env =
  deletedOrMissingSha :: string
  uncommittedSha :: string
  uncommittedStagedSha :: string
  isUncommitted :: "string \<Rightarrow> bool"
  isUncommittedStaged :: "string \<Rightarrow> bool"
  isSha :: "string \<Rightarrow> bool"
  splitPath :: "string \<Rightarrow> string option \<Rightarrow> string \<times> string"
  normalizePath :: "string \<Rightarrow> string"
  joinPath :: "string \<Rightarrow> string \<Rightarrow> string"
  relativePath :: "string \<Rightarrow> string \<Rightarrow> string"
  isAbsolute :: "string \<Rightarrow> bool"
  sha1 :: "string \<Rightarrow> string"
  documentKey :: "GitUri \<Rightarrow> string"
  maxListItems :: "nat option"
  maxSearchItems :: "nat option"
  fileHistoryFollowsRenames :: bool

definition startsWith :: "string \<Rightarrow> string \<Rightarrow> bool" where
  "startsWith s p = (take (length p) s = p)"

definition GitUri_resolve :: "Env \<Rightarrow> string \<Rightarrow> string option \<Rightarrow> string" where
  "GitUri_resolve env fileName repoPath =
     (let normalizedFileName = normalizePath env fileName in
      case repoPath of
        None \<Rightarrow> normalizedFileName
      | Some rp \<Rightarrow>
          let normalizedRepoPath = normalizePath env rp in
          if normalizedFileName = [] then normalizedRepoPath
          else if startsWith normalizedFileName normalizedRepoPath then normalizedFileName
          else normalizePath env (joinPath env normalizedRepoPath normalizedFileName))"

definition GitUri_fromFile :: "Env \<Rightarrow> string \<Rightarrow> string option \<Rightarrow> string option \<Rightarrow> GitUri" where
  "GitUri_fromFile env fileName repoPath ref =
     \<lparr>uri_fsPath = GitUri_resolve env fileName repoPath,
      uri_repoPath = repoPath,
      uri_sha =
        (case ref of
           None \<Rightarrow> None
         | Some r \<Rightarrow>
             if r = [] then None
             else if isUncommittedStaged env r \<or> \<not> isUncommitted env r then Some r
             else None)\<rparr>"

text \<open>\<open>a || b\<close> on strings: \<open>undefined\<close> and the empty string are falsy.\<close>

definition js_or :: "string option \<Rightarrow> string \<Rightarrow> string" where
  "js_or a b = (case a of None \<Rightarrow> b | Some x \<Rightarrow> if x = [] then b else x)"

definition truthy :: "string option \<Rightarrow> bool" where
  "truthy a = (case a of None \<Rightarrow> False | Some x \<Rightarrow> x \<noteq> [])"

text \<open>Decimal rendering of a number inside a template string.\<close>

fun showNat :: "nat \<Rightarrow> string" where
  "showNat n =
     (if n < 10 then [''0123456789'' ! n]
      else showNat (n div 10) @ [''0123456789'' ! (n mod 10)])"

declare showNat.simps [simp del]

section \<open>Logs\<close>

text \<open>
  A JavaScript \<open>Map\<close> is an association list in insertion order: \<open>set\<close> replaces the value of
  a key in place and appends a new key at the end; \<open>new Map(entries)\<close> sets the entries one
  after the other.
\<close>

definition Map_set :: "'k \<Rightarrow> 'v \<Rightarrow> ('k \<times> 'v) list \<Rightarrow> ('k \<times> 'v) list" where
  "Map_set k v m = AList.update k v m"

definition Map_new :: "('k \<times> 'v) list \<Rightarrow> ('k \<times> 'v) list" where
  "Map_new entries = foldl (\<lambda>m (k, v). Map_set k v m) [] entries"

definition Map_has :: "('k \<times> 'v) list \<Rightarrow> 'k \<Rightarrow> bool" where
  "Map_has m k = (map_of m k \<noteq> None)"

record Range =
  startLine :: nat
  endLine :: nat

record GitAuthor =
  author_name :: string
  lineCount :: nat

text \<open>A log commit, reduced to what the service reads of it.\<close>

record GitLogCommit =
  c_sha :: string
  c_ref :: string
  c_author :: string

record LogOptions =
  lo_authors :: "string list option"
  lo_limit :: "nat option"
  lo_merges :: "bool option"
  lo_ref :: "string option"
  lo_reverse :: "bool option"

record FileLogOptions =
  fo_limit :: "nat option"
  fo_range :: "Range option"
  fo_ref :: "string option"
  fo_renames :: "bool option"
  fo_reverse :: "bool option"

text \<open>
  The arrow functions stored in \<open>log.query\<close>, as the values they capture.
\<close>

datatype QueryFn =
    QueryLog string LogOptions
  | QueryLogForFile "string option" string FileLogOptions

text \<open>
  The fields of a \<open>GitLog\<close> other than \<open>more\<close>. A value of \<open>authors\<close> can be \<open>undefined\<close>
  (the non-null assertion at line 1810).
\<close>

record LogData =
  log_repoPath :: string
  log_authors :: "(string \<times> GitAuthor option) list"
  log_commits :: "(string \<times> GitLogCommit) list"
  log_sha :: "string option"
  log_range :: "Range option"
  log_count :: nat
  log_limit :: "nat option"
  log_hasMore :: bool
  log_query :: "QueryFn option"

text \<open>
  The closures returned by \<open>getLogMoreFn\<close> and \<open>getLogForFileMoreFn\<close>, as the values they
  capture: the log object they are bound to and the options. Wherever the code creates such
  a closure it assigns it to the \<open>more\<close> field of the very log it captures, so the captured
  object is given by its other fields.
\<close>

datatype MoreFn =
    LogMoreFn LogData LogOptions
  | LogForFileMoreFn LogData string FileLogOptions

record GitLog = LogData +
  log_more :: "MoreFn option"

text \<open>A log object from its fields, and the fields of a log object other than \<open>more\<close>.\<close>

definition withMore :: "LogData \<Rightarrow> MoreFn option \<Rightarrow> GitLog" where
  "withMore d m =
     \<lparr>log_repoPath = log_repoPath d, log_authors = log_authors d, log_commits = log_commits d, log_sha = log_sha d,
      log_range = log_range d, log_count = log_count d, log_limit = log_limit d, log_hasMore = log_hasMore d,
      log_query = log_query d, log_more = m\<rparr>"

definition dataOf :: "GitLog \<Rightarrow> LogData" where
  "dataOf l =
     \<lparr>log_repoPath = log_repoPath l, log_authors = log_authors l, log_commits = log_commits l, log_sha = log_sha l,
      log_range = log_range l, log_count = log_count l, log_limit = log_limit l, log_hasMore = log_hasMore l,
      log_query = log_query l\<rparr>"

text \<open>The log object a closure is bound to.\<close>

definition boundLog :: "MoreFn \<Rightarrow> GitLog" where
  "boundLog f =
     (case f of
        LogMoreFn d opts \<Rightarrow> withMore d (Some f)
      | LogForFileMoreFn d fileName opts \<Rightarrow> withMore d (Some f))"

section \<open>Tracked documents and the cached retrieval operations\<close>

text \<open>
  A promise handed out by the retrieval operations is either the module constant
  \<open>emptyPromise\<close> (\<open>Promise.resolve(undefined)\<close>) or the promise of the n-th invocation of
  one of the \<open>...Core\<close> functions. An \<open>async\<close> operation that returns a promise settles as
  that promise does, so an operation is modelled as returning it.
\<close>

datatype promise = emptyPromise | Promise nat

record CachedItem =
  item :: promise
  errorMessage :: "string option"

text \<open>
  A \<open>TrackedDocument<GitDocumentState>\<close>: \<open>state\<close> is \<open>undefined\<close> or a map from cache keys
  to cached items; \<open>blameFailure\<close> is what \<open>setBlameFailure()\<close> sets.
\<close>

record TrackedDocument =
  doc_state :: "(string \<rightharpoonup> CachedItem) option"
  blameFailure :: bool

text \<open>
  What the parsers produce. Blames and diffs are kept abstract; a log is inspected by
  \<open>getLogForFile\<close>.
\<close>

datatype ('bl, 'df) Result = BlameResult 'bl | DiffResult 'df | LogResult GitLog

text \<open>
  An invocation of a \<open>...Core\<close> function: its arguments and how far it has run. A core is
  suspended at \<open>await this.isTracked(...)\<close>, then at the git subprocess, and finally its
  promise is resolved with a value or with \<open>undefined\<close> (no core rejects: every failure of
  the subprocess or the parser is caught).
\<close>

datatype CoreCall =
    BlameCore GitUri string string
  | BlameContentsCore GitUri string string string
  | DiffCore "string option" string "string option" "string option" "string option" string string
  | LogCore "string option" string FileLogOptions string string

datatype 'r Status = AwaitTracked | AwaitGit | Settled "'r option"

record ('bl, 'df) Core =
  core_call :: CoreCall
  core_status :: "('bl, 'df) Result Status"

record ('b, 't, 'bl, 'df) World = "('b, 't) GitService" +
  tracker :: "string \<Rightarrow> TrackedDocument"
  cores :: "('bl, 'df) Core list"

definition cacheGet :: "('b, 't, 'bl, 'df) World \<Rightarrow> string \<Rightarrow> string \<Rightarrow> CachedItem option" where
  "cacheGet s doc key = (case doc_state (tracker s doc) of None \<Rightarrow> None | Some m \<Rightarrow> m key)"

definition stateSet ::
  "string \<Rightarrow> string \<Rightarrow> CachedItem \<Rightarrow> ('b, 't, 'bl, 'df) World \<Rightarrow> ('b, 't, 'bl, 'df) World" where
  "stateSet doc key v s =
     (case doc_state (tracker s doc) of
        None \<Rightarrow> s
      | Some m \<Rightarrow> s\<lparr>tracker := (tracker s)(doc := (tracker s doc)\<lparr>doc_state := Some (m(key \<mapsto> v))\<rparr>)\<rparr>)"

definition newState :: "string \<Rightarrow> ('b, 't, 'bl, 'df) World \<Rightarrow> ('b, 't, 'bl, 'df) World" where
  "newState doc s = s\<lparr>tracker := (tracker s)(doc := (tracker s doc)\<lparr>doc_state := Some Map.empty\<rparr>)\<rparr>"

definition setBlameFailure :: "string \<Rightarrow> ('b, 't, 'bl, 'df) World \<Rightarrow> ('b, 't, 'bl, 'df) World" where
  "setBlameFailure doc s = s\<lparr>tracker := (tracker s)(doc := (tracker s doc)\<lparr>blameFailure := True\<rparr>)\<rparr>"

definition spawn :: "GitCommand \<Rightarrow> ('b, 't, 'bl, 'df) World \<Rightarrow> ('b, 't, 'bl, 'df) World" where
  "spawn cmd s = s\<lparr>spawned := spawned s @ [cmd]\<rparr>"

definition startCore ::
  "CoreCall \<Rightarrow> ('bl, 'df) Result Status \<Rightarrow> ('b, 't, 'bl, 'df) World \<Rightarrow>
   promise \<times> ('b, 't, 'bl, 'df) World" where
  "startCore c st s = (Promise (length (cores s)), s\<lparr>cores := cores s @ [\<lparr>core_call = c, core_status = st\<rparr>]\<rparr>)"

definition setStatus ::
  "nat \<Rightarrow> ('bl, 'df) Result Status \<Rightarrow> ('b, 't, 'bl, 'df) World \<Rightarrow> ('b, 't, 'bl, 'df) World" where
  "setStatus pid st s = s\<lparr>cores := (cores s)[pid := (cores s ! pid)\<lparr>core_status := st\<rparr>]\<rparr>"

text \<open>What a promise has settled to: \<open>None\<close> while pending, \<open>Some None\<close> for \<open>undefined\<close>.\<close>

definition promiseValue ::
  "('b, 't, 'bl, 'df) World \<Rightarrow> promise \<Rightarrow> ('bl, 'df) Result option option" where
  "promiseValue s p =
     (case p of
        emptyPromise \<Rightarrow> Some None
      | Promise pid \<Rightarrow>
          if pid < length (cores s)
          then (case core_status (cores s ! pid) of Settled v \<Rightarrow> Some v | _ \<Rightarrow> None)
          else None)"

subsection \<open>Blame\<close>

text \<open>
  The synchronous start of \<open>getBlameForFileCore\<close> and \<open>getBlameForFileContentsCore\<close>: both
  suspend at once, awaiting \<open>isTracked\<close>.
\<close>

definition getBlameForFileCore ::
  "('b, 't, 'bl, 'df) World \<Rightarrow> GitUri \<Rightarrow> string \<Rightarrow> string \<Rightarrow> promise \<times> ('b, 't, 'bl, 'df) World" where
  "getBlameForFileCore s uri document key = startCore (BlameCore uri document key) AwaitTracked s"

definition getBlameForFileContentsCore ::
  "('b, 't, 'bl, 'df) World \<Rightarrow> GitUri \<Rightarrow> string \<Rightarrow> string \<Rightarrow> string \<Rightarrow>
   promise \<times> ('b, 't, 'bl, 'df) World" where
  "getBlameForFileContentsCore s uri contents document key =
     startCore (BlameContentsCore uri contents document key) AwaitTracked s"

definition blameKey :: "GitUri \<Rightarrow> string" where
  "blameKey uri = ''blame'' @ (case uri_sha uri of Some r \<Rightarrow> '':'' @ r | None \<Rightarrow> [])"

definition blameContentsKey :: "Env \<Rightarrow> string \<Rightarrow> string" where
  "blameContentsKey env contents = ''blame:'' @ sha1 env contents"

definition getBlameForFile ::
  "Env \<Rightarrow> ('b, 't, 'bl, 'df) World \<Rightarrow> GitUri \<Rightarrow> promise \<times> ('b, 't, 'bl, 'df) World" where
  "getBlameForFile env s uri =
     (let key = blameKey uri;
          doc = documentKey env uri
      in
      case (if useCaching s then cacheGet s doc key else None) of
        Some cachedBlame \<Rightarrow> (item cachedBlame, s)
      | None \<Rightarrow>
          let s1 = (if useCaching s \<and> doc_state (tracker s doc) = None then newState doc s else s);
              (promise, s2) = getBlameForFileCore s1 uri doc key
          in if doc_state (tracker s2 doc) \<noteq> None
             then (promise, stateSet doc key \<lparr>item = promise, errorMessage = None\<rparr> s2)
             else (promise, s2))"

definition getBlameForFileContents ::
  "Env \<Rightarrow> ('b, 't, 'bl, 'df) World \<Rightarrow> GitUri \<Rightarrow> string \<Rightarrow> promise \<times> ('b, 't, 'bl, 'df) World" where
  "getBlameForFileContents env s uri contents =
     (let key = blameContentsKey env contents;
          doc = documentKey env uri
      in
      case (if useCaching s then cacheGet s doc key else None) of
        Some cachedBlame \<Rightarrow> (item cachedBlame, s)
      | None \<Rightarrow>
          let s1 = (if useCaching s \<and> doc_state (tracker s doc) = None then newState doc s else s);
              (promise, s2) = getBlameForFileContentsCore s1 uri contents doc key
          in if doc_state (tracker s2 doc) \<noteq> None
             then (promise, stateSet doc key \<lparr>item = promise, errorMessage = None\<rparr> s2)
             else (promise, s2))"

subsection \<open>Diff\<close>

text \<open>
  \<open>getDiffForFileCore\<close> does not ask whether the file is tracked: it starts \<open>git show\<close> or
  \<open>git diff\<close> at once and suspends on the subprocess.
\<close>

definition getDiffForFileCore ::
  "Env \<Rightarrow> ('b, 't, 'bl, 'df) World \<Rightarrow> string option \<Rightarrow> string \<Rightarrow> string option \<Rightarrow> string option \<Rightarrow>
   string option \<Rightarrow> string \<Rightarrow> string \<Rightarrow> promise \<times> ('b, 't, 'bl, 'df) World" where
  "getDiffForFileCore env s repoPath fileName ref1 ref2 originalFileName document key =
     (let (file, root) = splitPath env fileName repoPath;
          cmd = (case ref1 of
                   Some r1 \<Rightarrow>
                     if ref2 = None \<and> \<not> isUncommittedStaged env r1
                     then Git_show__diff root file r1 originalFileName
                     else Git_diff root file ref1 ref2
                 | None \<Rightarrow> Git_diff root file ref1 ref2)
      in startCore (DiffCore repoPath fileName ref1 ref2 originalFileName document key) AwaitGit
           (spawn cmd s))"

definition diffKey :: "string option \<Rightarrow> string option \<Rightarrow> string" where
  "diffKey ref1 ref2 =
     ''diff'' @ (case ref1 of Some r \<Rightarrow> '':'' @ r | None \<Rightarrow> [])
       @ (case ref2 of Some r \<Rightarrow> '':'' @ r | None \<Rightarrow> [])"

definition getDiffForFile ::
  "Env \<Rightarrow> ('b, 't, 'bl, 'df) World \<Rightarrow> GitUri \<Rightarrow> string option \<Rightarrow> string option \<Rightarrow> string option \<Rightarrow>
   promise \<times> ('b, 't, 'bl, 'df) World" where
  "getDiffForFile env s uri ref1 ref2 originalFileName =
     (let key = diffKey ref1 ref2;
          doc = documentKey env uri
      in
      case (if useCaching s then cacheGet s doc key else None) of
        Some cachedDiff \<Rightarrow> (item cachedDiff, s)
      | None \<Rightarrow>
          let s1 = (if useCaching s \<and> doc_state (tracker s doc) = None then newState doc s else s);
              (promise, s2) = getDiffForFileCore env s1 (uri_repoPath uri) (uri_fsPath uri) ref1 ref2
                                originalFileName doc key
          in if doc_state (tracker s2 doc) \<noteq> None
             then (promise, stateSet doc key \<lparr>item = promise, errorMessage = None\<rparr> s2)
             else (promise, s2))"

subsection \<open>File log\<close>

text \<open>
  The options of \<open>getLogForFile\<close> once its defaults are filled in (lines 1743 to 1754), and
  the three values read back from them.
\<close>

definition optLimit :: "FileLogOptions \<Rightarrow> nat" where
  "optLimit options = (case fo_limit options of Some n \<Rightarrow> n | None \<Rightarrow> 0)"

definition optRenames :: "FileLogOptions \<Rightarrow> bool" where
  "optRenames options = (case fo_renames options of Some b \<Rightarrow> b | None \<Rightarrow> False)"

definition optReverse :: "FileLogOptions \<Rightarrow> bool" where
  "optReverse options = (case fo_reverse options of Some b \<Rightarrow> b | None \<Rightarrow> False)"

definition fileLogDefaults :: "Env \<Rightarrow> FileLogOptions \<Rightarrow> FileLogOptions" where
  "fileLogDefaults env options =
     options\<lparr>
       fo_reverse := Some (optReverse options),
       fo_renames := Some (case fo_renames options of
                             Some b \<Rightarrow> b | None \<Rightarrow> fileHistoryFollowsRenames env),
       fo_limit := Some (case fo_limit options of
                           Some n \<Rightarrow> n
                         | None \<Rightarrow> (case maxListItems env of Some n \<Rightarrow> n | None \<Rightarrow> 0))\<rparr>"

definition logKey :: "FileLogOptions \<Rightarrow> string" where
  "logKey options =
     ''log'' @ (case fo_ref options of Some r \<Rightarrow> '':'' @ r | None \<Rightarrow> [])
       @ (if optLimit options \<noteq> 0 then '':n'' @ showNat (optLimit options) else [])
       @ (if optRenames options then '':follow'' else [])
       @ (if optReverse options then '':reverse'' else [])"

definition wholeLogKey :: "FileLogOptions \<Rightarrow> string" where
  "wholeLogKey options =
     ''log'' @ (if optRenames options then '':follow'' else [])
       @ (if optReverse options then '':reverse'' else [])"

text \<open>The tracked document a file log is cached in: that of \<open>GitUri.fromFile(fileName, repoPath, ref)\<close>.\<close>

definition logDocument :: "Env \<Rightarrow> string option \<Rightarrow> string \<Rightarrow> FileLogOptions \<Rightarrow> string" where
  "logDocument env repoPath fileName options =
     documentKey env (GitUri_fromFile env fileName repoPath (fo_ref options))"

definition getLogForFileCore ::
  "('b, 't, 'bl, 'df) World \<Rightarrow> string option \<Rightarrow> string \<Rightarrow> FileLogOptions \<Rightarrow> string \<Rightarrow> string \<Rightarrow>
   promise \<times> ('b, 't, 'bl, 'df) World" where
  "getLogForFileCore s repoPath fileName options document key =
     startCore (LogCore repoPath fileName options document key) AwaitTracked s"

text \<open>
  The end of \<open>getLogForFile\<close>, from the "Cache miss" message on (lines 1833 to 1851).
  \<open>caching\<close> tells whether control is inside the block guarded by
  \<open>this.useCaching && options.range === undefined\<close>, where a missing document state is
  created.
\<close>

definition getLogForFile_miss ::
  "bool \<Rightarrow> ('b, 't, 'bl, 'df) World \<Rightarrow> string option \<Rightarrow> string \<Rightarrow> FileLogOptions \<Rightarrow> string \<Rightarrow>
   string \<Rightarrow> promise \<times> ('b, 't, 'bl, 'df) World" where
  "getLogForFile_miss caching s repoPath fileName options doc key =
     (let s1 = (if caching \<and> doc_state (tracker s doc) = None then newState doc s else s);
          (promise, s2) = getLogForFileCore s1 repoPath fileName options doc key
      in if doc_state (tracker s2 doc) \<noteq> None \<and> fo_range options = None
         then (promise, stateSet doc key \<lparr>item = promise, errorMessage = None\<rparr> s2)
         else (promise, s2))"

text \<open>
  How a call of \<open>getLogForFile\<close> goes on after its synchronous part: it returns a promise,
  or it is suspended at \<open>await cachedLog.item\<close> (line 1788) on the cached log of the whole
  file, or (after that suspension only) it returns a log it has built itself.
\<close>

datatype LogReturn = Returns promise | AwaitsCached promise | ReturnsLog GitLog

definition getLogForFile ::
  "Env \<Rightarrow> ('b, 't, 'bl, 'df) World \<Rightarrow> string option \<Rightarrow> string \<Rightarrow> FileLogOptions \<Rightarrow>
   error + LogReturn \<times> ('b, 't, 'bl, 'df) World" where
  "getLogForFile env s repoPath fileName options0 =
     (if repoPath \<noteq> None \<and> repoPath = Some (normalizePath env fileName)
      then Inl (Error (''File name cannot match the repository path; fileName='' @ fileName))
      else
        let options = fileLogDefaults env options0;
            key = logKey options;
            doc = logDocument env repoPath fileName options;
            miss = (\<lambda>caching.
                      let (promise, s') = getLogForFile_miss caching s repoPath fileName options doc key
                      in Inr (Returns promise, s'))
        in
        if useCaching s \<and> fo_range options = None then
          (case doc_state (tracker s doc) of
             None \<Rightarrow> miss True
           | Some m \<Rightarrow>
               (case m key of
                  Some cachedLog \<Rightarrow> Inr (Returns (item cachedLog), s)
                | None \<Rightarrow>
                    if fo_ref options \<noteq> None \<or> fo_limit options \<noteq> None then
                      (case m (wholeLogKey options) of
                         Some cachedLog \<Rightarrow>
                           if fo_ref options = None then Inr (Returns (item cachedLog), s)
                           else Inr (AwaitsCached (item cachedLog), s)
                       | None \<Rightarrow> miss True)
                    else miss True))
        else miss False)"

text \<open>
  The copy of a complete cached log that starts at the requested commit (lines 1792 to
  1814): entries before the key \<open>r\<close> are skipped, and of the following ones those beyond the
  limit are dropped; \<open>i\<close> counts the entries seen since \<open>r\<close>.
\<close>

fun copyFrom ::
  "string \<Rightarrow> nat \<Rightarrow> bool \<Rightarrow> nat \<Rightarrow> (string \<times> GitLogCommit) list \<Rightarrow> (string \<times> GitLogCommit) list" where
  "copyFrom r lim skip i [] = []"
| "copyFrom r lim skip i ((k, c) # es) =
     (if skip \<and> k \<noteq> r then copyFrom r lim True i es
      else if Suc i > lim then copyFrom r lim False (Suc i) es
      else (k, c) # copyFrom r lim False (Suc i) es)"

definition copyAuthors ::
  "(string \<times> GitAuthor option) list \<Rightarrow> (string \<times> GitLogCommit) list \<Rightarrow>
   (string \<times> GitAuthor option) list" where
  "copyAuthors as kept =
     foldl (\<lambda>m (k, c). Map_set (c_author c)
                          (case map_of as (c_author c) of Some a \<Rightarrow> a | None \<Rightarrow> None) m)
       [] kept"

text \<open>
  \<open>getLogForFile\<close> resumed after \<open>await cachedLog.item\<close> with the value \<open>v\<close> of the cached
  promise (lines 1789 to 1851). Only logs are cached under keys that start with \<open>log\<close>, so any
  other value is treated as no log.
\<close>

definition getLogForFile_awaited ::
  "Env \<Rightarrow> ('b, 't, 'bl, 'df) World \<Rightarrow> string option \<Rightarrow> string \<Rightarrow> FileLogOptions \<Rightarrow>
   ('bl, 'df) Result option \<Rightarrow> LogReturn \<times> ('b, 't, 'bl, 'df) World" where
  "getLogForFile_awaited env s repoPath fileName options0 v =
     (let options = fileLogDefaults env options0;
          key = logKey options;
          doc = logDocument env repoPath fileName options;
          miss = (let (promise, s') = getLogForFile_miss True s repoPath fileName options doc key
                  in (Returns promise, s'))
      in
      case (v, fo_ref options) of
        (Some (LogResult l), Some r) \<Rightarrow>
          if \<not> log_hasMore l \<and> Map_has (log_commits l) r then
            let kept = Map_new (copyFrom r (optLimit options) True 0 (log_commits l)) in
            (ReturnsLog
               (l\<lparr>log_limit := fo_limit options,
                  log_count := length kept,
                  log_commits := kept,
                  log_authors := copyAuthors (log_authors l) kept,
                  log_query := Some (QueryLogForFile repoPath fileName options)\<rparr>), s)
          else miss
      | _ \<Rightarrow> miss)"

subsection \<open>The cores resumed\<close>

text \<open>
  \<open>isTracked\<close> answers \<open>false\<close> for the deleted-or-missing sha without looking further;
  otherwise its answer comes from \<open>_trackedCache\<close> or from \<open>git ls-files\<close>, and is the
  parameter \<open>answer\<close>.
\<close>

definition isTracked :: "Env \<Rightarrow> string option \<Rightarrow> bool \<Rightarrow> bool" where
  "isTracked env r answer = (r \<noteq> Some (deletedOrMissingSha env) \<and> answer)"

text \<open>
  \<open>ex.toString()\<close>, which is \<open>Error.prototype.toString\<close>: the name alone when the message is
  empty, and otherwise the name, a colon, a space and the message.
\<close>

definition error_toString :: "error \<Rightarrow> string" where
  "error_toString ex =
     (case ex of
        Error msg \<Rightarrow> if msg = [] then ''Error'' else ''Error: '' @ msg
      | TypeError msg \<Rightarrow> if msg = [] then ''TypeError'' else ''TypeError: '' @ msg)"

text \<open>
  The blame and log cores after \<open>await this.isTracked(...)\<close>: an untracked file resolves the
  promise with \<open>undefined\<close>; for a tracked one the git subprocess is started.
\<close>

definition core_isTracked_returned ::
  "Env \<Rightarrow> ('b, 't, 'bl, 'df) World \<Rightarrow> nat \<Rightarrow> bool \<Rightarrow> ('b, 't, 'bl, 'df) World" where
  "core_isTracked_returned env s pid answer =
     (if pid < length (cores s) \<and> core_status (cores s ! pid) = AwaitTracked then
        (case core_call (cores s ! pid) of
           BlameCore uri document key \<Rightarrow>
             if \<not> isTracked env (uri_sha uri) answer then setStatus pid (Settled None) s
             else
               let (file, root) = splitPath env (uri_fsPath uri) (uri_repoPath uri)
               in setStatus pid AwaitGit (spawn (Git_blame root file (uri_sha uri)) s)
         | BlameContentsCore uri contents document key \<Rightarrow>
             if \<not> isTracked env (uri_sha uri) answer then setStatus pid (Settled None) s
             else
               let (file, root) = splitPath env (uri_fsPath uri) (uri_repoPath uri)
               in setStatus pid AwaitGit (spawn (Git_blame__contents root file contents) s)
         | LogCore repoPath fileName options document key \<Rightarrow>
             if \<not> isTracked env (fo_ref options) answer then setStatus pid (Settled None) s
             else
               let (file, root) = splitPath env fileName repoPath
               in setStatus pid AwaitGit (spawn (Git_log__file root file (fo_ref options)) s)
         | DiffCore repoPath fileName ref1 ref2 originalFileName document key \<Rightarrow> s)
      else s)"

text \<open>
  What \<open>getLogForFileCore\<close> does to a parsed log before returning it (lines 1895 to 1902);
  \<open>range\<close> has been put in order before (line 1874).
\<close>

definition orderedRange :: "Range option \<Rightarrow> Range option" where
  "orderedRange rg =
     (case rg of
        None \<Rightarrow> None
      | Some x \<Rightarrow>
          if startLine x > endLine x then Some \<lparr>startLine = endLine x, endLine = startLine x\<rparr>
          else Some x)"

definition bindFileLog :: "string option \<Rightarrow> string \<Rightarrow> FileLogOptions \<Rightarrow> GitLog \<Rightarrow> GitLog" where
  "bindFileLog repoPath fileName options l =
     (let opts = options\<lparr>fo_range := orderedRange (fo_range options)\<rparr>;
          d = (dataOf l)\<lparr>log_query := Some (QueryLogForFile repoPath fileName opts)\<rparr>
      in if log_hasMore l then withMore d (Some (LogForFileMoreFn d fileName opts))
         else withMore d (log_more l))"

text \<open>
  Every core after the git subprocess has ended and its output, if any, has been parsed:
  \<open>r\<close> is the exception thrown inside the \<open>try\<close> block, or the parser's value. The \<open>catch\<close>
  block replaces the cache entry by \<open>emptyPromise\<close> with the error text when the document has
  a state (for a log also: no range and not reversed), and the promise resolves with
  \<open>undefined\<close> either way.
\<close>

definition coreDocument :: "CoreCall \<Rightarrow> string" where
  "coreDocument c =
     (case c of
        BlameCore uri document key \<Rightarrow> document
      | BlameContentsCore uri contents document key \<Rightarrow> document
      | DiffCore repoPath fileName ref1 ref2 originalFileName document key \<Rightarrow> document
      | LogCore repoPath fileName options document key \<Rightarrow> document)"

definition coreKey :: "CoreCall \<Rightarrow> string" where
  "coreKey c =
     (case c of
        BlameCore uri document key \<Rightarrow> key
      | BlameContentsCore uri contents document key \<Rightarrow> key
      | DiffCore repoPath fileName ref1 ref2 originalFileName document key \<Rightarrow> key
      | LogCore repoPath fileName options document key \<Rightarrow> key)"

definition cacheReplaceWithEmpty ::
  "string \<Rightarrow> string \<Rightarrow> error \<Rightarrow> ('b, 't, 'bl, 'df) World \<Rightarrow> ('b, 't, 'bl, 'df) World" where
  "cacheReplaceWithEmpty doc key ex s =
     stateSet doc key \<lparr>item = emptyPromise, errorMessage = Some (error_toString ex)\<rparr> s"

definition core_git_returned ::
  "('b, 't, 'bl, 'df) World \<Rightarrow> nat \<Rightarrow> error + ('bl, 'df) Result option \<Rightarrow> ('b, 't, 'bl, 'df) World" where
  "core_git_returned s pid r =
     (if pid < length (cores s) \<and> core_status (cores s ! pid) = AwaitGit then
        let c = core_call (cores s ! pid);
            hasState = (doc_state (tracker s (coreDocument c)) \<noteq> None)
        in
        (case r of
           Inr v \<Rightarrow>
             (case (c, v) of
                (LogCore repoPath fileName options document key, Some (LogResult l)) \<Rightarrow>
                  setStatus pid (Settled (Some (LogResult (bindFileLog repoPath fileName options l)))) s
              | _ \<Rightarrow> setStatus pid (Settled v) s)
         | Inl ex \<Rightarrow>
             (case c of
                BlameCore uri document key \<Rightarrow>
                  if hasState
                  then setStatus pid (Settled None)
                         (setBlameFailure document (cacheReplaceWithEmpty document key ex s))
                  else setStatus pid (Settled None) s
              | BlameContentsCore uri contents document key \<Rightarrow>
                  if hasState
                  then setStatus pid (Settled None)
                         (setBlameFailure document (cacheReplaceWithEmpty document key ex s))
                  else setStatus pid (Settled None) s
              | DiffCore repoPath fileName ref1 ref2 originalFileName document key \<Rightarrow>
                  if hasState
                  then setStatus pid (Settled None) (cacheReplaceWithEmpty document key ex s)
                  else setStatus pid (Settled None) s
              | LogCore repoPath fileName options document key \<Rightarrow>
                  if hasState \<and> fo_range options = None \<and> \<not> optReverse options
                  then setStatus pid (Settled None) (cacheReplaceWithEmpty document key ex s)
                  else setStatus pid (Settled None) s))
      else s)"

section \<open>Paging through a log\<close>

text \<open>
  \<open>getLog\<close> awaits \<open>Git.log\<close> and hands its output to \<open>GitLogParser.parse\<close>; \<open>runLog\<close> stands
  for the two together, called with the repository, the ref and the options passed to
  git: it rejects, or yields the parsed log (which has no \<open>more\<close> yet), or \<open>undefined\<close>.
\<close>

record LogEnv =
  runLog :: "string \<Rightarrow> string option \<Rightarrow> LogOptions \<Rightarrow> error + LogData option"

definition getLog :: "Env \<Rightarrow> LogEnv \<Rightarrow> string \<Rightarrow> LogOptions \<Rightarrow> GitLog option" where
  "getLog env le repoPath options =
     (let limit = (case lo_limit options of
                     Some n \<Rightarrow> n
                   | None \<Rightarrow> (case maxListItems env of Some n \<Rightarrow> n | None \<Rightarrow> 0))
      in
      case runLog le repoPath (lo_ref options)
             (options\<lparr>lo_limit := Some limit,
                      lo_merges := Some (case lo_merges options of None \<Rightarrow> True | Some b \<Rightarrow> b)\<rparr>) of
        Inl ex \<Rightarrow> None
      | Inr None \<Rightarrow> None
      | Inr (Some parsed) \<Rightarrow>
          let d = parsed\<lparr>log_query := Some (QueryLog repoPath options)\<rparr>
          in Some (if log_hasMore d then withMore d (Some (LogMoreFn d options))
                   else withMore d None))"

text \<open>The argument of a \<open>more\<close> continuation: \<open>number | { until: string } | undefined\<close>.\<close>

datatype MoreArg = MoreLimit nat | MoreUntil string | MoreDefault

definition moreUntilOf :: "MoreArg \<Rightarrow> string option" where
  "moreUntilOf arg = (case arg of MoreUntil u \<Rightarrow> Some u | _ \<Rightarrow> None)"

definition moreLimitOf :: "Env \<Rightarrow> MoreArg \<Rightarrow> nat" where
  "moreLimitOf env arg =
     (case arg of
        MoreLimit n \<Rightarrow> n
      | _ \<Rightarrow> (case maxSearchItems env of Some n \<Rightarrow> n | None \<Rightarrow> 0))"

text \<open>\<open>Iterables.some(log.commits.values(), c => c.ref === moreUntil)\<close>.\<close>

definition hasRef :: "string \<Rightarrow> (string \<times> GitLogCommit) list \<Rightarrow> bool" where
  "hasRef u cs = list_ex (\<lambda>(k, c). c_ref c = u) cs"

text \<open>
  \<open>Iterables.last(log.commits.values())?.ref\<close> inside a template string: the ref of the
  commit inserted last, the oldest one known; without any commit the text \<open>undefined\<close>.
\<close>

definition lastRef :: "(string \<times> GitLogCommit) list \<Rightarrow> string" where
  "lastRef cs = (case rev cs of [] \<Rightarrow> ''undefined'' | (k, c) # _ \<Rightarrow> c_ref c)"

text \<open>The ref a continuation queries: \<open>oldest^\<close>, or the range \<open>until^..oldest^\<close>.\<close>

definition moreRef :: "MoreArg \<Rightarrow> (string \<times> GitLogCommit) list \<Rightarrow> string" where
  "moreRef arg cs =
     (case moreUntilOf arg of
        None \<Rightarrow> lastRef cs @ ''^''
      | Some u \<Rightarrow> u @ ''^..'' @ lastRef cs @ ''^'')"

text \<open>
  The object \<open>mergedLog\<close> built by both continuations, with its \<open>more\<close> field assigned:
  \<open>d\<close> is the log the continuation is bound to, \<open>moreLog\<close> what the query returned, \<open>rg\<close>
  the range of the merged log and \<open>q\<close> its \<open>query\<close> function.
\<close>

definition mergedData ::
  "Env \<Rightarrow> LogData \<Rightarrow> MoreArg \<Rightarrow> Range option \<Rightarrow> QueryFn \<Rightarrow> GitLog \<Rightarrow> LogData" where
  "mergedData env d arg rg q moreLog =
     \<lparr>log_repoPath = log_repoPath d,
      log_authors = Map_new (log_authors d @ log_authors moreLog),
      log_commits = Map_new (log_commits d @ log_commits moreLog),
      log_sha = log_sha d,
      log_range = rg,
      log_count = log_count d + log_count moreLog,
      log_limit = (if moreUntilOf arg = None
                   then Some ((case log_limit d of Some n \<Rightarrow> n | None \<Rightarrow> 0) + moreLimitOf env arg)
                   else None),
      log_hasMore = (if moreUntilOf arg = None then log_hasMore moreLog else True),
      log_query = Some q\<rparr>"

definition getLogMoreFn :: "Env \<Rightarrow> LogEnv \<Rightarrow> LogData \<Rightarrow> LogOptions \<Rightarrow> MoreArg \<Rightarrow> GitLog" where
  "getLogMoreFn env le d options arg =
     (let bound = boundLog (LogMoreFn d options) in
      if truthy (moreUntilOf arg) \<and> (case moreUntilOf arg of Some u \<Rightarrow> hasRef u (log_commits d) | None \<Rightarrow> False)
      then bound
      else
        (case getLog env le (log_repoPath d)
                (options\<lparr>lo_limit := Some (if moreUntilOf arg = None then moreLimitOf env arg else 0),
                         lo_ref := Some (moreRef arg (log_commits d))\<rparr>) of
           None \<Rightarrow> bound\<lparr>log_hasMore := False\<rparr>
         | Some moreLog \<Rightarrow>
             let md = mergedData env d arg None (QueryLog (log_repoPath d) options) moreLog
             in withMore md (Some (LogMoreFn md options))))"

text \<open>
  \<open>getLogForFileMoreFn\<close> awaits \<open>getLogForFile\<close>; \<open>fileLog\<close> gives what that call settles
  to for its three arguments: a rejection, a log or \<open>undefined\<close>. The continuation does not
  catch a rejection.
\<close>

definition getLogForFileMoreFn ::
  "Env \<Rightarrow> (string option \<Rightarrow> string \<Rightarrow> FileLogOptions \<Rightarrow> error + GitLog option) \<Rightarrow> LogData \<Rightarrow> string \<Rightarrow>
   FileLogOptions \<Rightarrow> MoreArg \<Rightarrow> error + GitLog" where
  "getLogForFileMoreFn env fileLog d fileName options arg =
     (let bound = boundLog (LogForFileMoreFn d fileName options) in
      if truthy (moreUntilOf arg) \<and> (case moreUntilOf arg of Some u \<Rightarrow> hasRef u (log_commits d) | None \<Rightarrow> False)
      then Inr bound
      else
        (case fileLog (Some (log_repoPath d)) fileName
                (options\<lparr>fo_limit := Some (if moreUntilOf arg = None then moreLimitOf env arg else 0),
                         fo_ref := Some (moreRef arg (log_commits d))\<rparr>) of
           Inl ex \<Rightarrow> Inl ex
         | Inr None \<Rightarrow> Inr (bound\<lparr>log_hasMore := False\<rparr>)
         | Inr (Some moreLog) \<Rightarrow>
             let md = mergedData env d arg (log_range d)
                        (QueryLogForFile (Some (log_repoPath d)) fileName options) moreLog
             in Inr (withMore md (Some (LogForFileMoreFn md fileName options)))))"

section \<open>Blame of a line range\<close>

text \<open>
  A blame: the per-line records (\<open>l_line\<close> is the 1-based line number), the commits by sha,
  each with the line records it is responsible for, and the authors by name with their
  line counts. \<open>repoPath\<close> can be \<open>undefined\<close> in a sliced blame (\<open>uri.repoPath!\<close>).
\<close>

record GitCommitLine =
  l_sha :: string
  l_line :: nat
  l_originalLine :: nat

record GitBlameCommit =
  bc_sha :: string
  bc_author :: string
  bc_lines :: "GitCommitLine list"

record GitBlame =
  blame_repoPath :: "string option"
  blame_authors :: "(string \<times> GitAuthor) list"
  blame_commits :: "(string \<times> GitBlameCommit) list"
  blame_lines :: "GitCommitLine list"

record GitBlameLines = GitBlame +
  allLines :: "GitCommitLine list"

text \<open>\<open>{ allLines: blame.lines, ...blame }\<close>.\<close>

definition withAllLines :: "GitBlame \<Rightarrow> GitBlameLines" where
  "withAllLines blame =
     \<lparr>blame_repoPath = blame_repoPath blame, blame_authors = blame_authors blame,
      blame_commits = blame_commits blame, blame_lines = blame_lines blame,
      allLines = blame_lines blame\<rparr>"

text \<open>
  The body of the loop over \<open>blame.commits.values()\<close>: a commit none of whose lines is in
  the slice is skipped; otherwise its line list is cut down to the range, the copy is
  stored under its sha, and the author's count grows by the lines left (the author entry is
  created with count 0 when missing, and is changed in place). \<open>c.with({ lines })\<close> is the
  commit with its lines replaced.
\<close>

definition rangeStep ::
  "string list \<Rightarrow> nat \<Rightarrow> nat \<Rightarrow>
   (string \<times> GitAuthor) list \<times> (string \<times> GitBlameCommit) list \<Rightarrow> GitBlameCommit \<Rightarrow>
   (string \<times> GitAuthor) list \<times> (string \<times> GitBlameCommit) list" where
  "rangeStep shas startL endL acc c =
     (case acc of
        (authors, commits) \<Rightarrow>
          if bc_sha c \<notin> set shas then (authors, commits)
          else
            let commit = c\<lparr>bc_lines := filter (\<lambda>l. l_line l \<ge> startL \<and> l_line l \<le> endL) (bc_lines c)\<rparr>;
                found = (case map_of authors (bc_author commit) of
                           None \<Rightarrow> \<lparr>author_name = bc_author commit, lineCount = 0\<rparr>
                         | Some a \<Rightarrow> a)
            in (Map_set (bc_author commit)
                  (found\<lparr>lineCount := lineCount found + length (bc_lines commit)\<rparr>) authors,
                Map_set (bc_sha c) commit commits))"

definition getBlameForRangeSync :: "GitBlame \<Rightarrow> GitUri \<Rightarrow> Range \<Rightarrow> GitBlameLines" where
  "getBlameForRangeSync blame uri rg =
     (if length (blame_lines blame) = 0 then withAllLines blame
      else if startLine rg = 0 \<and> endLine rg = length (blame_lines blame) - 1
      then withAllLines blame
      else
        let lines = drop (startLine rg) (take (endLine rg + 1) (blame_lines blame));
            shas = map l_sha lines;
            startL = startLine rg + 1;
            endL = endLine rg + 1;
            (authors, commits) =
              foldl (rangeStep shas startL endL) ([], []) (map snd (blame_commits blame));
            sortedAuthors = Map_new (sort_key (\<lambda>(k, a). - int (lineCount a)) authors)
        in \<lparr>blame_repoPath = uri_repoPath uri, blame_authors = sortedAuthors,
            blame_commits = commits, blame_lines = lines, allLines = blame_lines blame\<rparr>)"

text \<open>The sum of the line counts of all authors.\<close>

definition authorTotal :: "(string \<times> GitAuthor) list \<Rightarrow> nat" where
  "authorTotal as = sum_list (map (\<lambda>(k, a). lineCount a) as)"

text \<open>
  The invariant of a blame: the line records are numbered 1, 2, ... in order; every line
  record has a commit entry under its sha; and the line lists of the commits partition the
  line records, each commit holding the records with its own sha.
\<close>

definition blameInvariant :: "GitBlame \<Rightarrow> bool" where
  "blameInvariant blame \<longleftrightarrow>
     map l_line (blame_lines blame) = [1 ..< Suc (length (blame_lines blame))] \<and>
     (\<forall>l \<in> set (blame_lines blame). map_of (blame_commits blame) (l_sha l) \<noteq> None) \<and>
     mset (concat (map (\<lambda>(k, c). bc_lines c) (blame_commits blame))) = mset (blame_lines blame) \<and>
     (\<forall>(k, c) \<in> set (blame_commits blame). \<forall>l \<in> set (bc_lines c). l_sha l = bc_sha c)"

section \<open>Search queries\<close>

text \<open>
  A query is a string of 8-bit characters here, so of the characters that the expressions
  below tell apart only those up to U+00FF occur: the line terminators are LF and CR, and
  the whitespace characters are TAB, LF, VT, FF, CR, the space and the no-break space.
\<close>

definition isLineTerminator :: "char \<Rightarrow> bool" where
  "isLineTerminator c \<longleftrightarrow> c = CHR 0x0A \<or> c = CHR 0x0D"

definition isWhitespace :: "char \<Rightarrow> bool" where
  "isWhitespace c \<longleftrightarrow>
     c \<in> set [CHR 0x09, CHR 0x0A, CHR 0x0B, CHR 0x0C, CHR 0x0D, CHR 0x20, CHR 0xA0]"

text \<open>The operators that the two expressions for operations list, in their order.\<close>

definition searchOperators :: "string list" where
  "searchOperators =
     [''=:'', ''message:'', ''@:'', ''author:'', ''#:'', ''commit:'', ''?:'', ''file:'',
      ''~:'', ''change:'']"

definition normalizeSearchOperatorsMap :: "(string \<times> string) list" where
  "normalizeSearchOperatorsMap =
     [('''', ''message:''),
      (''=:'', ''message:''),
      (''message:'', ''message:''),
      (''@:'', ''author:''),
      (''author:'', ''author:''),
      (''#:'', ''commit:''),
      (''commit:'', ''commit:''),
      (''?:'', ''file:''),
      (''file:'', ''file:''),
      (''~:'', ''change:''),
      (''change:'', ''change:'')]"

text \<open>The operator that the text \<open>s\<close> begins with.\<close>

definition operatorAt :: "string \<Rightarrow> string option" where
  "operatorAt s = find (\<lambda>op. startsWith s op) searchOperators"

text \<open>
  \<open>\s?(?:(?:=:|message:|...|change:)|$)\<close> matches at the beginning of \<open>s\<close>: after at most one
  whitespace character comes an operator or the end of the query.
\<close>

definition stopsAt :: "string \<Rightarrow> bool" where
  "stopsAt s \<longleftrightarrow>
     (case s of
        [] \<Rightarrow> True
      | c # r \<Rightarrow> (isWhitespace c \<and> (operatorAt r \<noteq> None \<or> r = [])) \<or> operatorAt s \<noteq> None)"

text \<open>
  The lookahead \<open>(?=(.*?)\s?(?:(?:=:|...|change:)|$))\<close> at the beginning of \<open>s\<close>: the group
  is the shortest run of characters, none a line terminator, after which the rest matches;
  \<open>None\<close> when a line terminator comes first.
\<close>

fun lookahead :: "string \<Rightarrow> string option" where
  "lookahead [] = Some []"
| "lookahead (c # r) =
     (if stopsAt (c # r) then Some []
      else if isLineTerminator c then None
      else map_option ((#) c) (lookahead r))"

text \<open>
  \<open>searchMessageOperationRegex.exec(search)\<close>: group 1 of the match at the first position at
  which the lookahead matches; \<open>None\<close> is \<open>null\<close>.
\<close>

fun searchMessageOperationRegex_exec :: "string \<Rightarrow> string option" where
  "searchMessageOperationRegex_exec [] = lookahead []"
| "searchMessageOperationRegex_exec (c # r) =
     (case lookahead (c # r) of
        Some v \<Rightarrow> Some v
      | None \<Rightarrow> searchMessageOperationRegex_exec r)"

text \<open>
  \<open>searchOperationRegex\<close> at the beginning of \<open>s\<close>: an operator, at most one whitespace
  character (tried first with it, then without), and the lookahead. The result is group 1,
  group 2 and the text after the match, from which the next search starts.
\<close>

definition operationAt :: "string \<Rightarrow> (string \<times> string \<times> string) option" where
  "operationAt s =
     (case operatorAt s of
        None \<Rightarrow> None
      | Some op \<Rightarrow>
          let r = drop (length op) s;
              spaced = (case r of
                          [] \<Rightarrow> None
                        | c # r' \<Rightarrow> if isWhitespace c
                                   then map_option (\<lambda>v. (op, v, r')) (lookahead r')
                                   else None)
          in (case spaced of
                Some m \<Rightarrow> Some m
              | None \<Rightarrow> map_option (\<lambda>v. (op, v, r)) (lookahead r)))"

text \<open>
  \<open>searchOperationRegex.exec(search)\<close> with the text from \<open>lastIndex\<close> on as the state of the
  expression: the first match in that text, and the text left after it. The loop of
  \<open>parseSearchOperations\<close> runs the expression until it returns \<open>null\<close>, which resets
  \<open>lastIndex\<close>, so every call starts at the beginning of the query.
\<close>

fun searchOperationRegex_exec :: "string \<Rightarrow> (string \<times> string \<times> string) option" where
  "searchOperationRegex_exec [] = None"
| "searchOperationRegex_exec (c # r) =
     (case operationAt (c # r) of
        Some m \<Rightarrow> Some m
      | None \<Rightarrow> searchOperationRegex_exec r)"

text \<open>
  \<open>searchMessageValuesRegex\<close>, \<open>(".+"|[^\b\s]+)\<close>, at the beginning of \<open>s\<close>. The first
  alternative: a double quote, and the longest run of characters on the line that ends in a
  double quote and has a character before it; the result is the length of the match.
\<close>

definition quotedAt :: "string \<Rightarrow> nat option" where
  "quotedAt s =
     (case s of
        [] \<Rightarrow> None
      | c # r \<Rightarrow>
          if c \<noteq> CHR 0x22 then None
          else (case filter (\<lambda>j. r ! j = CHR 0x22)
                       [1 ..< length (takeWhile (\<lambda>c. \<not> isLineTerminator c) r)] of
                  [] \<Rightarrow> None
                | j # js \<Rightarrow> Some (last (j # js) + 2)))"

text \<open>The second alternative: the longest run of characters other than backspace and whitespace.\<close>

definition valueAt :: "string \<Rightarrow> (string \<times> string) option" where
  "valueAt s =
     (case quotedAt s of
        Some n \<Rightarrow> Some (take n s, drop n s)
      | None \<Rightarrow>
          let w = takeWhile (\<lambda>c. c \<noteq> CHR 0x08 \<and> \<not> isWhitespace c) s
          in if w = [] then None else Some (w, drop (length w) s))"

fun searchMessageValuesRegex_exec :: "string \<Rightarrow> (string \<times> string) option" where
  "searchMessageValuesRegex_exec [] = None"
| "searchMessageValuesRegex_exec (c # r) =
     (case valueAt (c # r) of
        Some m \<Rightarrow> Some m
      | None \<Rightarrow> searchMessageValuesRegex_exec r)"

text \<open>
  \<open>values = operations.get(key)\<close>, then \<open>operations.set(key, [value])\<close> when there is none
  and \<open>values.push(value)\<close> otherwise; the array is shared with the map.
\<close>

definition pushValue ::
  "string \<Rightarrow> string \<Rightarrow> (string \<times> string list) list \<Rightarrow> (string \<times> string list) list" where
  "pushValue key v operations =
     (case map_of operations key of
        None \<Rightarrow> Map_set key [v] operations
      | Some values \<Rightarrow> Map_set key (values @ [v]) operations)"

function messageValuesLoop ::
  "string \<Rightarrow> (string \<times> string list) list \<Rightarrow> (string \<times> string list) list" where
  "messageValuesLoop message operations =
     (case searchMessageValuesRegex_exec message of
        None \<Rightarrow> operations
      | Some (v, rest) \<Rightarrow> messageValuesLoop rest (pushValue ''message:'' v operations))"
  by pat_completeness auto
termination
proof (relation "measure (\<lambda>(message, operations). length message)")
  show "wf (measure (\<lambda>(message, operations). length message))" by simp
next
  fix message :: string and operations :: "(string \<times> string list) list" and m v rest
  assume e: "searchMessageValuesRegex_exec message = Some m" and m: "(v, rest) = m"
  have q: "quotedAt s = Some n \<Longrightarrow> 0 < n \<and> s \<noteq> []" for s n
    by (auto simp: quotedAt_def split: list.splits if_splits)
  have w: "takeWhile P s \<noteq> [] \<Longrightarrow> length s - length (takeWhile P s) < length s"
    for P and s :: string
    by (cases s) auto
  have a: "valueAt s = Some (v, rest) \<Longrightarrow> length rest < length s" for s v rest
    using q [of s] by (auto simp: valueAt_def Let_def w split: option.splits if_splits)
  have "searchMessageValuesRegex_exec s = Some (v, rest) \<Longrightarrow> length rest < length s" for s
  proof (induction s)
    case Nil
    then show ?case by simp
  next
    case (Cons c r)
    then show ?case using a [of "c # r" v rest] by (auto split: option.splits)
  qed
  with e m show "((rest, pushValue ''message:'' v operations), message, operations)
        \<in> measure (\<lambda>(message, operations). length message)"
    by simp
qed

declare messageValuesLoop.simps [simp del]

definition parseSearchMessageOperations ::
  "string \<Rightarrow> (string \<times> string list) list \<Rightarrow> (string \<times> string list) list" where
  "parseSearchMessageOperations message operations =
     (if message = [] then pushValue ''message:'' [] operations
      else messageValuesLoop message operations)"

text \<open>
  The loop of \<open>parseSearchOperations\<close>. Group 1 takes part in every match, so \<open>op\<close> is
  defined; every operator of the expression is a key of \<open>normalizeSearchOperatorsMap\<close>, and
  an operator that is none would leave the operations as they are here.
\<close>

function operationsLoop ::
  "string \<Rightarrow> (string \<times> string list) list \<Rightarrow> (string \<times> string list) list" where
  "operationsLoop search operations =
     (case searchOperationRegex_exec search of
        None \<Rightarrow> operations
      | Some (op, v, rest) \<Rightarrow>
          operationsLoop rest
            (case map_of normalizeSearchOperatorsMap op of
               None \<Rightarrow> operations
             | Some op' \<Rightarrow>
                 if op' = ''message:'' then parseSearchMessageOperations v operations
                 else pushValue op' v operations))"
  by pat_completeness auto
termination
proof (relation "measure (\<lambda>(search, operations). length search)")
  show "wf (measure (\<lambda>(search, operations). length search))" by simp
next
  fix search :: string and operations :: "(string \<times> string list) list" and m op vr v rest
  assume e: "searchOperationRegex_exec search = Some m" and m: "(op, vr) = m" "(v, rest) = vr"
  have o: "operatorAt s = Some op \<Longrightarrow> 0 < length op \<and> length op \<le> length s" for s op
    by (auto simp: operatorAt_def searchOperators_def startsWith_def split: if_splits)
  have a: "length rest < length s" if h: "operationAt s = Some (op, v, rest)" for s op v rest
  proof -
    from h obtain op' where oa: "operatorAt s = Some op'"
      by (auto simp: operationAt_def split: option.splits)
    from h oa have "rest = drop (length op') s \<or> (\<exists>c. drop (length op') s = c # rest)"
      by (auto simp: operationAt_def Let_def split: option.splits list.splits if_splits)
    moreover have "length (drop (length op') s) < length s"
      using o [OF oa] by (cases op') auto
    ultimately show ?thesis by (elim disjE exE) simp_all
  qed
  have "searchOperationRegex_exec s = Some (op, v, rest) \<Longrightarrow> length rest < length s" for s
  proof (induction s)
    case Nil
    then show ?case by simp
  next
    case (Cons c r)
    then show ?case using a [of "c # r" op v rest] by (auto split: option.splits)
  qed
  with e m show "((rest,
          case map_of normalizeSearchOperatorsMap op of
            None \<Rightarrow> operations
          | Some op' \<Rightarrow>
              if op' = ''message:'' then parseSearchMessageOperations v operations
              else pushValue op' v operations),
         search, operations)
        \<in> measure (\<lambda>(search, operations). length search)"
    by auto
qed

declare operationsLoop.simps [simp del]

text \<open>\<open>GitService.isSha\<close> is \<open>Git.isSha\<close>, taken from the environment.\<close>

definition parseSearchOperations :: "Env \<Rightarrow> string \<Rightarrow> (string \<times> string list) list" where
  "parseSearchOperations env search =
     (let operations = [];
          operations' =
            (case searchMessageOperationRegex_exec search of
               None \<Rightarrow> operations
             | Some v \<Rightarrow>
                 if v = [] then operations
                 else if isSha env v then pushValue ''commit:'' v operations
                 else parseSearchMessageOperations v operations)
      in operationsLoop search operations')"

text \<open>
  A query written as operations: each an operator directly followed by its value, one space
  between two operations. A plain word is a value that is not empty and has no whitespace,
  backspace, double quote or colon in it.
\<close>

definition plainWord :: "string \<Rightarrow> bool" where
  "plainWord v \<longleftrightarrow>
     v \<noteq> [] \<and>
     (\<forall>c \<in> set v. \<not> isWhitespace c \<and> c \<noteq> CHR 0x08 \<and> c \<noteq> CHR 0x22 \<and> c \<noteq> CHR '':'')"

fun searchQuery :: "(string \<times> string) list \<Rightarrow> string" where
  "searchQuery [] = []"
| "searchQuery [(op, v)] = op @ v"
| "searchQuery ((op, v) # t # ts) = op @ v @ '' '' @ searchQuery (t # ts)"

text \<open>The text after a value of such a query: nothing, or a space and an operator.\<close>

definition afterValue :: "string \<Rightarrow> bool" where
  "afterValue t \<longleftrightarrow> t = [] \<or> (\<exists>op u. op \<in> set searchOperators \<and> t = CHR '' '' # op @ u)"

text \<open>What one operation of such a query is to add: its value, under the long form of its operator.\<close>

definition addOperation ::
  "(string \<times> string list) list \<Rightarrow> string \<times> string \<Rightarrow> (string \<times> string list) list" where
  "addOperation operations t =
     (case map_of normalizeSearchOperatorsMap (fst t) of
        None \<Rightarrow> operations
      | Some op' \<Rightarrow> pushValue op' (snd t) operations)"

text \<open>
  The long form of an operator, as the specification gives it: \<open>=:\<close> is \<open>message:\<close>, \<open>@:\<close> is
  \<open>author:\<close>, \<open>#:\<close> is \<open>commit:\<close>, \<open>?:\<close> is \<open>file:\<close> and \<open>~:\<close> is \<open>change:\<close>; a long form is
  its own.
\<close>

definition longForm :: "string \<Rightarrow> string" where
  "longForm op =
     (if op = ''=:'' then ''message:''
      else if op = ''@:'' then ''author:''
      else if op = ''#:'' then ''commit:''
      else if op = ''?:'' then ''file:''
      else if op = ''~:'' then ''change:''
      else op)"

text \<open>
  A query that begins with free text: plain words with one space between two of them,
  followed, after one more space, by the operations.
\<close>

fun joinWords :: "string list \<Rightarrow> string" where
  "joinWords [] = []"
| "joinWords [w] = w"
| "joinWords (w # v # ws) = w @ '' '' @ joinWords (v # ws)"

definition textQuery :: "string list \<Rightarrow> (string \<times> string) list \<Rightarrow> string" where
  "textQuery ws terms =
     (if ws = [] then searchQuery terms
      else if terms = [] then joinWords ws
      else joinWords ws @ '' '' @ searchQuery terms)"

text \<open>
  The values that the free text of such a query is to give under the long form \<open>k\<close>: the
  whole text under \<open>commit:\<close> when it is a sha, and otherwise its words under \<open>message:\<close>.
\<close>

definition textValues :: "Env \<Rightarrow> string list \<Rightarrow> string \<Rightarrow> string list" where
  "textValues env ws k =
     (if ws = [] then []
      else if isSha env (joinWords ws) then (if k = ''commit:'' then [joinWords ws] else [])
      else if k = ''message:'' then ws
      else [])"

text \<open>The operations that the free text of such a query is to give.\<close>

definition textOperations :: "Env \<Rightarrow> string list \<Rightarrow> (string \<times> string list) list" where
  "textOperations env ws =
     (if ws = [] then []
      else if isSha env (joinWords ws) then [(''commit:'', [joinWords ws])]
      else [(''message:'', ws)])"

section \<open>Navigation to the next and the previous revision\<close>

text \<open>
  What the navigation operations await, as oracles: the git subprocesses
  (\<open>Git.log__file\<close>, \<open>Git.log__file_recent\<close>, which may reject) with the parsers of their
  output, \<open>getStatusForFile\<close>, \<open>workspace.openTextDocument\<close>, and the line blame and line
  diff lookups (which catch their own failures). Every awaited call is recorded, in order,
  in the list of calls an operation returns beside its completion.
\<close>

record LogFileArgs =
  lf_filters :: "string list option"
  lf_limit :: nat
  lf_reverse :: bool
  lf_simple :: bool
  lf_firstParent :: bool
  lf_startLine :: "int option"

record GitStatusFile =
  indexStatus :: "string option"
  workingTreeStatus :: "string option"

record TextDocument =
  isDirty :: bool
  getText :: string

text \<open>A \<open>GitBlameLine\<close>, reduced to what \<open>getPreviousLineDiffUris\<close> reads of it.\<close>

record BlameLine =
  bl_isUncommitted :: bool
  bl_sha :: string
  bl_fileName :: "string option"
  bl_originalFileName :: "string option"
  bl_previousSha :: "string option"
  bl_originalLine :: int

datatype NavCall =
    Call_log__file string string "string option" LogFileArgs
  | Call_log__file_recent string string
  | Call_getStatusForFile string string
  | Call_openTextDocument string
  | Call_getBlameForLine GitUri int
  | Call_getBlameForLineContents GitUri int string
  | Call_getDiffForLine GitUri int "string option" "string option"

record NavEnv =
  log__file :: "string \<Rightarrow> string \<Rightarrow> string option \<Rightarrow> LogFileArgs \<Rightarrow> error + string option"
  log__file_recent :: "string \<Rightarrow> string \<Rightarrow> error + string option"
  parseSimple :: "string \<Rightarrow> nat \<Rightarrow> string option \<Rightarrow> string option \<times> string option \<times> string option"
  parseSimpleRenamed :: "string \<Rightarrow> string \<Rightarrow> string option \<times> string option"
  getStatusForFile :: "string \<Rightarrow> string \<Rightarrow> error + GitStatusFile option"
  invalidLineCount :: "error \<Rightarrow> bool"
  openTextDocument :: "string \<Rightarrow> error + TextDocument"
  getBlameForLine :: "GitUri \<Rightarrow> int \<Rightarrow> BlameLine option"
  getBlameForLineContents :: "GitUri \<Rightarrow> int \<Rightarrow> string \<Rightarrow> BlameLine option"
  getDiffForLine :: "GitUri \<Rightarrow> int \<Rightarrow> string option \<Rightarrow> string option \<Rightarrow> bool"

type_synonym 'a nav = "(error + 'a) \<times> NavCall list"

definition ret :: "'a \<Rightarrow> 'a nav" where
  "ret x = (Inr x, [])"

text \<open>An awaited call \<open>c\<close> that completes with \<open>r\<close>.\<close>

definition await :: "NavCall \<Rightarrow> error + 'a \<Rightarrow> 'a nav" where
  "await c r = (r, [c])"

text \<open>Sequencing: a rejection ends the operation, otherwise the calls of both parts add up.\<close>

definition bindN :: "'a nav \<Rightarrow> ('a \<Rightarrow> 'b nav) \<Rightarrow> 'b nav" where
  "bindN m f =
     (case m of
        (Inl ex, cs) \<Rightarrow> (Inl ex, cs)
      | (Inr x, cs) \<Rightarrow> (case f x of (r, cs') \<Rightarrow> (r, cs @ cs')))"

text \<open>\<open>try\<close> and \<open>catch\<close>: the handler runs on a rejection, after the calls made so far.\<close>

definition tryCatch :: "'a nav \<Rightarrow> (error \<Rightarrow> 'a nav) \<Rightarrow> 'a nav" where
  "tryCatch m handler =
     (case m of
        (Inl ex, cs) \<Rightarrow> (case handler ex of (r, cs') \<Rightarrow> (r, cs @ cs'))
      | (Inr x, cs) \<Rightarrow> (Inr x, cs))"

definition GitUri_relativeTo :: "Env \<Rightarrow> string \<Rightarrow> string option \<Rightarrow> string" where
  "GitUri_relativeTo env fileName relativeTo =
     normalizePath env
       (case relativeTo of
          None \<Rightarrow> fileName
        | Some rt \<Rightarrow>
            if rt = [] \<or> \<not> isAbsolute env fileName then fileName
            else relativePath env rt fileName)"

definition noLogFileArgs :: LogFileArgs where
  "noLogFileArgs =
     \<lparr>lf_filters = None, lf_limit = 0, lf_reverse = False, lf_simple = False,
      lf_firstParent = False, lf_startLine = None\<rparr>"

definition getNextUri ::
  "Env \<Rightarrow> NavEnv \<Rightarrow> string \<Rightarrow> string \<Rightarrow> string option \<Rightarrow> nat \<Rightarrow> GitUri option nav" where
  "getNextUri env nav repoPath uri ref0 skip =
     (case ref0 of
        None \<Rightarrow> ret None
      | Some r0 \<Rightarrow>
          if r0 = [] \<or> isUncommittedStaged env r0 then ret None
          else
            let deleted = (r0 = deletedOrMissingSha env);
                r = (if deleted then None else Some r0);
                filters = (if deleted then Some [''A''] else None);
                fileName = GitUri_relativeTo env uri (Some repoPath);
                args = noLogFileArgs\<lparr>lf_filters := filters, lf_limit := skip + 1,
                                       lf_reverse := True, lf_simple := True\<rparr>
            in
            bindN (await (Call_log__file repoPath fileName r args)
                     (log__file nav repoPath fileName r args))
              (\<lambda>data.
                 case data of
                   None \<Rightarrow> ret None
                 | Some d \<Rightarrow>
                     if d = [] then ret None
                     else
                       (case parseSimple nav d skip None of
                          (nextRef, file, status) \<Rightarrow>
                            if status = Some ''D'' then
                              let args' = noLogFileArgs\<lparr>lf_filters := Some [''R''], lf_limit := 1,
                                                         lf_simple := True\<rparr>
                              in
                              bindN (await (Call_log__file repoPath ''.'' nextRef args')
                                       (log__file nav repoPath ''.'' nextRef args'))
                                (\<lambda>data'.
                                   case data' of
                                     None \<Rightarrow>
                                       ret (Some (GitUri_fromFile env (js_or file fileName)
                                                    (Some repoPath) nextRef))
                                   | Some d' \<Rightarrow>
                                       if d' = [] then
                                         ret (Some (GitUri_fromFile env (js_or file fileName)
                                                      (Some repoPath) nextRef))
                                       else
                                         (case parseSimpleRenamed nav d' (js_or file fileName) of
                                            (nextRenamedRef, renamedFile) \<Rightarrow>
                                              ret (Some (GitUri_fromFile env
                                                (js_or renamedFile (js_or file fileName))
                                                (Some repoPath)
                                                (Some (js_or nextRenamedRef
                                                   (js_or nextRef (deletedOrMissingSha env))))))))
                            else
                              ret (Some (GitUri_fromFile env (js_or file fileName) (Some repoPath)
                                           nextRef)))))"

record NextDiffUris =
  nd_current :: "GitUri option"
  nd_next :: "GitUri option"

definition getNextDiffUris ::
  "Env \<Rightarrow> NavEnv \<Rightarrow> string \<Rightarrow> string \<Rightarrow> string option \<Rightarrow> nat \<Rightarrow> NextDiffUris option nav" where
  "getNextDiffUris env nav repoPath uri ref0 skip =
     (case ref0 of
        None \<Rightarrow> ret None
      | Some r0 \<Rightarrow>
          if r0 = [] then ret None
          else
            let fileName = GitUri_relativeTo env uri (Some repoPath) in
            if isUncommittedStaged env r0 then
              ret (Some \<lparr>nd_current = Some (GitUri_fromFile env fileName (Some repoPath) ref0),
                         nd_next = Some (GitUri_fromFile env fileName (Some repoPath) None)\<rparr>)
            else
              bindN (getNextUri env nav repoPath uri ref0 skip)
                (\<lambda>next.
                   case next of
                     None \<Rightarrow>
                       bindN (await (Call_getStatusForFile repoPath fileName)
                                (getStatusForFile nav repoPath fileName))
                         (\<lambda>status.
                            if (case status of Some st \<Rightarrow> indexStatus st \<noteq> None | None \<Rightarrow> False)
                            then
                              ret (Some \<lparr>nd_current =
                                           Some (GitUri_fromFile env fileName (Some repoPath) ref0),
                                         nd_next =
                                           Some (GitUri_fromFile env fileName (Some repoPath)
                                                   (Some (uncommittedStagedSha env)))\<rparr>)
                            else
                              ret (Some \<lparr>nd_current =
                                           Some (GitUri_fromFile env fileName (Some repoPath) ref0),
                                         nd_next =
                                           Some (GitUri_fromFile env fileName (Some repoPath) None)\<rparr>))
                   | Some n \<Rightarrow>
                       if skip = 0 then
                         ret (Some \<lparr>nd_current =
                                      Some (GitUri_fromFile env fileName (Some repoPath) ref0),
                                    nd_next = next\<rparr>)
                       else
                         bindN (getNextUri env nav repoPath uri ref0 (skip - 1))
                           (\<lambda>current. ret (Some \<lparr>nd_current = current, nd_next = next\<rparr>))))"

text \<open>
  In \<open>getPreviousUri\<close> the \<open>try\<close> block yields the output of git (\<open>Inr\<close>); the \<open>catch\<close> block
  either returns a uri from the operation (\<open>Inl\<close>) or throws the exception again.
\<close>

definition getPreviousUri ::
  "Env \<Rightarrow> NavEnv \<Rightarrow> string \<Rightarrow> string \<Rightarrow> string option \<Rightarrow> nat \<Rightarrow> int option \<Rightarrow> bool \<Rightarrow>
   GitUri option nav" where
  "getPreviousUri env nav repoPath uri ref0 skip editorLine firstParent =
     (if ref0 = Some (deletedOrMissingSha env) then ret None
      else
        let r = (if ref0 = Some (uncommittedSha env) then None else ref0);
            fileName = GitUri_relativeTo env uri (Some repoPath);
            args = noLogFileArgs\<lparr>lf_limit := skip + 2, lf_firstParent := firstParent,
                                   lf_simple := True,
                                   lf_startLine := map_option (\<lambda>l. l + 1) editorLine\<rparr>;
            recent =
              bindN (await (Call_log__file_recent repoPath fileName)
                       (log__file_recent nav repoPath fileName))
                (\<lambda>recentRef.
                   ret (Inl (Some (GitUri_fromFile env fileName (Some repoPath)
                                     (Some (js_or recentRef (deletedOrMissingSha env)))))))
        in
        bindN
          (tryCatch
             (bindN (await (Call_log__file repoPath fileName r args)
                       (log__file nav repoPath fileName r args))
                (\<lambda>data. ret (Inr data)))
             (\<lambda>ex.
                if (case r of None \<Rightarrow> True | Some x \<Rightarrow> isUncommittedStaged env x)
                   \<and> invalidLineCount nav ex
                then
                  if r = None then
                    bindN (await (Call_getStatusForFile repoPath fileName)
                             (getStatusForFile nav repoPath fileName))
                      (\<lambda>status.
                         if (case status of Some st \<Rightarrow> indexStatus st \<noteq> None | None \<Rightarrow> False)
                         then ret (Inl (Some (GitUri_fromFile env fileName (Some repoPath)
                                                (Some (uncommittedStagedSha env)))))
                         else recent)
                  else recent
                else (Inl ex, [])))
          (\<lambda>v.
             case v of
               Inl returned \<Rightarrow> ret returned
             | Inr None \<Rightarrow> ret None
             | Inr (Some d) \<Rightarrow>
                 if d = [] then ret None
                 else
                   (case parseSimple nav d skip r of
                      (previousRef, file, status) \<Rightarrow>
                        if r \<noteq> None \<and> r = previousRef then ret None
                        else
                          ret (Some (GitUri_fromFile env (js_or file fileName) (Some repoPath)
                                       (Some (js_or previousRef (deletedOrMissingSha env))))))))"

text \<open>
  The end shared by the branches of \<open>getPreviousDiffUris\<close> and \<open>getPreviousLineDiffUris\<close>:
  \<open>current\<close> is the uri at \<open>r\<close> itself, or \<open>skip - 1\<close> revisions before it, and \<open>previous\<close> the
  one \<open>skip\<close> revisions before, looked up from \<open>r'\<close>. \<open>getPreviousDiffUris\<close> tests \<open>current\<close>
  for \<open>undefined\<close> before it reads its sha (\<open>checked\<close>); \<open>getPreviousLineDiffUris\<close> does
  not, and the read throws.
\<close>

definition currentAndPrevious ::
  "Env \<Rightarrow> NavEnv \<Rightarrow> bool \<Rightarrow> string \<Rightarrow> string \<Rightarrow> string \<Rightarrow> string option \<Rightarrow> string option \<Rightarrow> nat \<Rightarrow>
   int option \<Rightarrow> bool \<Rightarrow> GitUri option \<Rightarrow> (GitUri \<times> GitUri option) option nav" where
  "currentAndPrevious env nav checked repoPath uri fileName r r' skip editorLine firstParent previous =
     bindN (if skip = 0 then ret (Some (GitUri_fromFile env fileName (Some repoPath) r))
            else getPreviousUri env nav repoPath uri r' (skip - 1) editorLine firstParent)
       (\<lambda>current.
          case current of
            None \<Rightarrow> if checked then ret None else (Inl (cannotReadProperty ''sha''), [])
          | Some cur \<Rightarrow>
              if uri_sha cur = Some (deletedOrMissingSha env) then ret None
              else
                (case previous of
                   Some p \<Rightarrow> ret (Some (cur, Some p))
                 | None \<Rightarrow>
                     bindN (getPreviousUri env nav repoPath uri r' skip editorLine firstParent)
                       (\<lambda>p. ret (Some (cur, p)))))"

definition getPreviousDiffUris ::
  "Env \<Rightarrow> NavEnv \<Rightarrow> string \<Rightarrow> string \<Rightarrow> string option \<Rightarrow> nat \<Rightarrow> bool \<Rightarrow>
   (GitUri \<times> GitUri option) option nav" where
  "getPreviousDiffUris env nav repoPath uri ref0 skip firstParent =
     (if ref0 = Some (deletedOrMissingSha env) then ret None
      else
        let fileName = GitUri_relativeTo env uri (Some repoPath);
            atCommit = (\<lambda>skip'. currentAndPrevious env nav True repoPath uri fileName ref0 ref0
                                   skip' None firstParent None)
        in
        if ref0 = None \<or> ref0 = Some [] then
          bindN (await (Call_getStatusForFile repoPath fileName)
                   (getStatusForFile nav repoPath fileName))
            (\<lambda>status.
               case status of
                 None \<Rightarrow> atCommit (if skip = 0 then skip + 1 else skip)
               | Some st \<Rightarrow>
                   if indexStatus st \<noteq> None then
                     let skip' = (if workingTreeStatus st = None then skip + 1 else skip) in
                     if skip' = 0 then
                       ret (Some (GitUri_fromFile env fileName (Some repoPath) None,
                                  Some (GitUri_fromFile env fileName (Some repoPath)
                                          (Some (uncommittedStagedSha env)))))
                     else
                       bindN (getPreviousUri env nav repoPath uri ref0 (skip' - 1) None firstParent)
                         (\<lambda>p. ret (Some (GitUri_fromFile env fileName (Some repoPath)
                                             (Some (uncommittedStagedSha env)), p)))
                   else if workingTreeStatus st \<noteq> None \<and> skip = 0 then
                     bindN (getPreviousUri env nav repoPath uri None skip None firstParent)
                       (\<lambda>p. ret (Some (GitUri_fromFile env fileName (Some repoPath) None, p)))
                   else atCommit skip)
        else if (case ref0 of Some r \<Rightarrow> isUncommittedStaged env r | None \<Rightarrow> False) then
          currentAndPrevious env nav True repoPath uri fileName ref0 None skip None firstParent None
        else atCommit skip)"

text \<open>
  \<open>getPreviousLineDiffUris\<close>. The uri of the document is given by its path;
  \<open>new GitUri(uri, repoPath)\<close> carries no sha, \<open>new GitUri(uri, {repoPath, sha})\<close> is
  \<open>GitUri.fromFile\<close> of that path.
\<close>

definition getPreviousLineDiffUris ::
  "Env \<Rightarrow> NavEnv \<Rightarrow> string \<Rightarrow> string \<Rightarrow> int \<Rightarrow> string option \<Rightarrow> nat \<Rightarrow>
   (GitUri \<times> GitUri option) option nav" where
  "getPreviousLineDiffUris env nav repoPath uri editorLine ref0 skip =
     (if ref0 = Some (deletedOrMissingSha env) then ret None
      else
        let fileName = GitUri_relativeTo env uri (Some repoPath);
            atLine = (\<lambda>bl.
              let fileName' = js_or (bl_fileName bl) (js_or (bl_originalFileName bl) fileName);
                  previous = (if skip = 0 \<and> truthy (bl_previousSha bl)
                              then Some (GitUri_fromFile env fileName' (Some repoPath)
                                           (bl_previousSha bl))
                              else None)
              in currentAndPrevious env nav False repoPath
                   (GitUri_resolve env fileName' (Some repoPath)) fileName'
                   (Some (bl_sha bl)) (Some (bl_sha bl)) skip (Some (bl_originalLine bl - 1)) False
                   previous)
        in
        if ref0 = None \<or> ref0 = Some [] then
          let gitUri = \<lparr>uri_fsPath = uri, uri_repoPath = Some repoPath, uri_sha = None\<rparr> in
          bindN (await (Call_openTextDocument uri) (openTextDocument nav uri))
            (\<lambda>document.
               bindN (if isDirty document
                      then await (Call_getBlameForLineContents gitUri editorLine (getText document))
                             (Inr (getBlameForLineContents nav gitUri editorLine (getText document)))
                      else await (Call_getBlameForLine gitUri editorLine)
                             (Inr (getBlameForLine nav gitUri editorLine)))
                 (\<lambda>blameLine.
                    case blameLine of
                      None \<Rightarrow> ret None
                    | Some bl \<Rightarrow>
                        if bl_isUncommitted bl then
                          if isDirty document then
                            bindN (await (Call_getStatusForFile repoPath fileName)
                                     (getStatusForFile nav repoPath fileName))
                              (\<lambda>status.
                                 if (case status of
                                       Some st \<Rightarrow> indexStatus st \<noteq> None | None \<Rightarrow> False)
                                 then
                                   ret (Some (GitUri_fromFile env fileName (Some repoPath) None,
                                              Some (GitUri_fromFile env fileName (Some repoPath)
                                                      (Some (uncommittedStagedSha env)))))
                                 else
                                   bindN (getPreviousUri env nav repoPath uri None skip
                                            (Some editorLine) False)
                                     (\<lambda>p. ret (Some (GitUri_fromFile env fileName (Some repoPath)
                                                         None, p))))
                          else
                            bindN (await (Call_getDiffForLine gitUri editorLine None None)
                                     (Inr (getDiffForLine nav gitUri editorLine None None)))
                              (\<lambda>inWorkingTree.
                                 if inWorkingTree then
                                   currentAndPrevious env nav False repoPath uri fileName ref0 ref0
                                     skip (Some editorLine) False None
                                 else
                                   bindN (await (Call_getDiffForLine gitUri editorLine None
                                                   (Some (uncommittedStagedSha env)))
                                            (Inr (getDiffForLine nav gitUri editorLine None
                                                    (Some (uncommittedStagedSha env)))))
                                     (\<lambda>inIndex.
                                        if inIndex then
                                          currentAndPrevious env nav False repoPath uri fileName
                                            (Some (uncommittedStagedSha env))
                                            (Some (uncommittedStagedSha env))
                                            skip (Some editorLine) False None
                                        else
                                          currentAndPrevious env nav False repoPath uri fileName
                                            ref0 ref0 (skip + 1) (Some editorLine) False None))
                        else atLine bl))
        else if (case ref0 of Some r \<Rightarrow> isUncommittedStaged env r | None \<Rightarrow> False) then
          currentAndPrevious env nav False repoPath uri fileName ref0 None skip (Some editorLine)
            False None
        else
          let gitUri = GitUri_fromFile env uri (Some repoPath) ref0 in
          bindN (await (Call_getBlameForLine gitUri editorLine)
                   (Inr (getBlameForLine nav gitUri editorLine)))
            (\<lambda>blameLine.
               case blameLine of
                 None \<Rightarrow> ret None
               | Some bl \<Rightarrow> atLine bl))"

subsection \<open>Properties of a cached operation\<close>



text \<open>
  The guard of the \<open>catch\<close> block of each core, apart from the test that the document has a
  state: the blame and diff cores always cache a failure, the log core only for a request
  without a range that is not reversed (line 1907).
\<close>

definition cachesFailure :: "CoreCall \<Rightarrow> bool" where
  "cachesFailure c =
     (case c of
        LogCore repoPath fileName options document key \<Rightarrow>
          fo_range options = None \<and> \<not> optReverse options
      | _ \<Rightarrow> True)"

subsection \<open>A concrete service state\<close>

text \<open>
  A service with caching switched off whose caches still hold entries for the repository
  \<open>/repo\<close>, and an environment in which git answers every query.
\<close>

definition demoService :: "(string, string) GitService" where
  "demoService =
     \<lparr>useCaching = False,
      branchesCache = [''/repo'' \<mapsto> [''master'']],
      tagsCache = [''/repo'' \<mapsto> [''v1.0'']],
      trackedCache = [''/repo/a.txt'' \<mapsto> TrackedValue True],
      userMapCache = [''/repo'' \<mapsto> None],
      immediates = 0,
      spawned = []\<rparr>"

definition demoRepository :: Repository where
  "demoRepository = \<lparr>repo_path = ''/repo'', supportsChangeEvents = True\<rparr>"

definition demoRefsEnv :: "(string, string) RefsEnv" where
  "demoRefsEnv =
     \<lparr>run_for_each_ref__branch = (\<lambda>rp. Inr (Some ''master develop'')),
      GitBranchParser_parse = (\<lambda>data rp. [''master'', ''develop'']),
      getBranch = (\<lambda>rp. Some ''master''),
      run_tag = (\<lambda>rp. Inr ''v1.0 v2.0''),
      GitTagParser_parse = (\<lambda>data rp. Some [''v1.0'', ''v2.0'']),
      getRepository = (\<lambda>rp. Some demoRepository),
      sortBranches = (\<lambda>xs. xs),
      sortTags = (\<lambda>xs. xs)\<rparr>"

definition demoEnv :: Env where
  "demoEnv =
     \<lparr>deletedOrMissingSha = ''0000000000000000000000000000000000000000-'',
      uncommittedSha = ''0000000000000000000000000000000000000000'',
      uncommittedStagedSha = ''0000000000000000000000000000000000000000:'',
      isUncommitted = (\<lambda>r. r = ''0000000000000000000000000000000000000000'' \<or>
                            r = ''0000000000000000000000000000000000000000:''),
      isUncommittedStaged = (\<lambda>r. r = ''0000000000000000000000000000000000000000:''),
      isSha = (\<lambda>r. length r = 40 \<and> (\<forall>ch \<in> set r. ch \<in> set ''0123456789abcdef'')),
      splitPath = (\<lambda>fileName repoPath. (fileName, case repoPath of Some rp \<Rightarrow> rp | None \<Rightarrow> [])),
      normalizePath = (\<lambda>p. p),
      joinPath = (\<lambda>a b. a @ ''/'' @ b),
      relativePath = (\<lambda>a b. drop (Suc (length a)) b),
      isAbsolute = (\<lambda>p. take 1 p = ''/''),
      sha1 = (\<lambda>contents. contents),
      documentKey = uri_fsPath,
      maxListItems = Some 200,
      maxSearchItems = Some 200,
      fileHistoryFollowsRenames = False\<rparr>"

text \<open>A world with caching switched on, no document state yet and no core started.\<close>

definition demoWorld :: "(string, string, string, string) World" where
  "demoWorld =
     \<lparr>useCaching = True,
      branchesCache = Map.empty,
      tagsCache = Map.empty,
      trackedCache = Map.empty,
      userMapCache = Map.empty,
      immediates = 0,
      spawned = [],
      tracker = (\<lambda>doc. \<lparr>doc_state = None, blameFailure = False\<rparr>),
      cores = []\<rparr>"

definition demoUri :: GitUri where
  "demoUri = \<lparr>uri_fsPath = ''/repo/a.txt'', uri_repoPath = Some ''/repo'', uri_sha = None\<rparr>"

definition noFileLogOptions :: FileLogOptions where
  "noFileLogOptions =
     \<lparr>fo_limit = None, fo_range = None, fo_ref = None, fo_renames = None, fo_reverse = None\<rparr>"

text \<open>A file log request for a line range, and the core such a request starts.\<close>

definition rangeOptions :: FileLogOptions where
  "rangeOptions = noFileLogOptions\<lparr>fo_range := Some \<lparr>startLine = 0, endLine = 5\<rparr>\<rparr>"

definition rangeCore :: "(string, string) Core" where
  "rangeCore =
     \<lparr>core_call = LogCore (Some ''/repo'') ''a.txt'' (fileLogDefaults demoEnv rangeOptions)
                   ''/repo/a.txt'' ''log:n200'',
      core_status = AwaitTracked\<rparr>"

text \<open>
  A file log request in reverse order, and the world after that request was made in
  \<open>demoWorld\<close>: its core is in flight and its promise is cached.
\<close>

definition reverseOptions :: FileLogOptions where
  "reverseOptions = noFileLogOptions\<lparr>fo_reverse := Some True\<rparr>"

definition reverseWorld :: "(string, string, string, string) World" where
  "reverseWorld =
     demoWorld\<lparr>
       tracker := (tracker demoWorld)(''/repo/a.txt'' :=
         \<lparr>doc_state = Some [''log:n200:reverse'' \<mapsto> \<lparr>item = Promise 0, errorMessage = None\<rparr>],
          blameFailure = False\<rparr>),
       cores := [\<lparr>core_call = LogCore (Some ''/repo'') ''a.txt''
                                (fileLogDefaults demoEnv reverseOptions)
                                ''/repo/a.txt'' ''log:n200:reverse'',
                   core_status = AwaitTracked\<rparr>]\<rparr>"

text \<open>The same world once the file is known to be tracked and git was started.\<close>

definition reverseGitWorld :: "(string, string, string, string) World" where
  "reverseGitWorld =
     reverseWorld\<lparr>
       spawned := [Git_log__file ''/repo'' ''a.txt'' None],
       cores := [\<lparr>core_call = LogCore (Some ''/repo'') ''a.txt''
                                (fileLogDefaults demoEnv reverseOptions)
                                ''/repo/a.txt'' ''log:n200:reverse'',
                   core_status = AwaitGit\<rparr>]\<rparr>"

text \<open>The world after a blame of \<open>demoUri\<close> was requested in \<open>demoWorld\<close> and git was started.\<close>

definition blameWorld :: "(string, string, string, string) World" where
  "blameWorld =
     demoWorld\<lparr>
       spawned := [Git_blame ''/repo'' ''/repo/a.txt'' None],
       tracker := (tracker demoWorld)(''/repo/a.txt'' :=
         \<lparr>doc_state = Some [''blame'' \<mapsto> \<lparr>item = Promise 0, errorMessage = None\<rparr>],
          blameFailure = False\<rparr>),
       cores := [\<lparr>core_call = BlameCore demoUri ''/repo/a.txt'' ''blame'',
                   core_status = AwaitGit\<rparr>]\<rparr>"

text \<open>
  Oracles for the navigation operations: git finds one commit, \<open>1234567\<close>, which added
  \<open>a.txt\<close>.
\<close>

definition demoNav :: NavEnv where
  "demoNav =
     \<lparr>log__file = (\<lambda>repoPath fileName r args. Inr (Some ''1234567 A a.txt'')),
      log__file_recent = (\<lambda>repoPath fileName. Inr (Some ''1234567'')),
      parseSimple = (\<lambda>data skip r. (Some ''1234567'', Some ''a.txt'', Some ''A'')),
      parseSimpleRenamed = (\<lambda>data file. (None, None)),
      getStatusForFile = (\<lambda>repoPath fileName. Inr None),
      invalidLineCount = (\<lambda>ex. False),
      openTextDocument = (\<lambda>uri. Inr \<lparr>isDirty = False, getText = []\<rparr>),
      getBlameForLine = (\<lambda>uri line. None),
      getBlameForLineContents = (\<lambda>uri line contents. None),
      getDiffForLine = (\<lambda>uri line ref1 ref2. False)\<rparr>"

text \<open>
  A repository with the commits \<open>c3\<close>, \<open>c2\<close>, \<open>c1\<close> (newest first), read one commit a page.
  In \<open>shallowLogEnv\<close> the history ends at \<open>c2\<close>; in \<open>deepenedLogEnv\<close> the commit \<open>c1\<close> has
  become known as well.
\<close>

definition commitOf :: "string \<Rightarrow> GitLogCommit" where
  "commitOf r = \<lparr>c_sha = r, c_ref = r, c_author = ''alice''\<rparr>"

definition pageOf :: "string \<Rightarrow> bool \<Rightarrow> LogData" where
  "pageOf r hm =
     \<lparr>log_repoPath = ''/repo'',
      log_authors = [(''alice'', Some \<lparr>author_name = ''alice'', lineCount = 0\<rparr>)],
      log_commits = [(r, commitOf r)],
      log_sha = None, log_range = None, log_count = 1, log_limit = Some 1,
      log_hasMore = hm, log_query = None\<rparr>"

definition shallowLogEnv :: LogEnv where
  "shallowLogEnv =
     \<lparr>runLog = (\<lambda>repoPath r options.
        if r = None then Inr (Some (pageOf ''c3'' True))
        else if r = Some ''c3^'' then Inr (Some (pageOf ''c2'' False))
        else Inr None)\<rparr>"

definition deepenedLogEnv :: LogEnv where
  "deepenedLogEnv =
     \<lparr>runLog = (\<lambda>repoPath r options.
        if r = None then Inr (Some (pageOf ''c3'' True))
        else if r = Some ''c3^'' then Inr (Some (pageOf ''c2'' True))
        else if r = Some ''c2^'' then Inr (Some (pageOf ''c1'' False))
        else Inr None)\<rparr>"



definition pageOptions :: LogOptions where
  "pageOptions =
     \<lparr>lo_authors = None, lo_limit = Some 1, lo_merges = None, lo_ref = None, lo_reverse = None\<rparr>"

text \<open>The first page as \<open>getLog\<close> returns it, and the log after one more page in the shallow repository.\<close>

definition firstPage :: LogData where
  "firstPage = (pageOf ''c3'' True)\<lparr>log_query := Some (QueryLog ''/repo'' pageOptions)\<rparr>"

definition secondPage :: LogData where
  "secondPage = dataOf (getLogMoreFn demoEnv shallowLogEnv firstPage pageOptions (MoreLimit 1))"

text \<open>A blame of three lines by two commits and two authors.\<close>

definition demoBlame :: GitBlame where
  "demoBlame =
     \<lparr>blame_repoPath = Some ''/repo'',
      blame_authors = [(''alice'', \<lparr>author_name = ''alice'', lineCount = 2\<rparr>),
                       (''bob'', \<lparr>author_name = ''bob'', lineCount = 1\<rparr>)],
      blame_commits =
        [(''aaa'', \<lparr>bc_sha = ''aaa'', bc_author = ''alice'',
                    bc_lines = [\<lparr>l_sha = ''aaa'', l_line = 1, l_originalLine = 1\<rparr>,
                                \<lparr>l_sha = ''aaa'', l_line = 3, l_originalLine = 2\<rparr>]\<rparr>),
         (''bbb'', \<lparr>bc_sha = ''bbb'', bc_author = ''bob'',
                    bc_lines = [\<lparr>l_sha = ''bbb'', l_line = 2, l_originalLine = 1\<rparr>]\<rparr>)],
      blame_lines = [\<lparr>l_sha = ''aaa'', l_line = 1, l_originalLine = 1\<rparr>,
                     \<lparr>l_sha = ''bbb'', l_line = 2, l_originalLine = 1\<rparr>,
                     \<lparr>l_sha = ''aaa'', l_line = 3, l_originalLine = 2\<rparr>]\<rparr>"

text \<open>The same blame with an author entry that does not count its lines.\<close>

definition staleBlame :: GitBlame where
  "staleBlame =
     demoBlame\<lparr>blame_authors := [(''alice'', \<lparr>author_name = ''alice'', lineCount = 7\<rparr>)]\<rparr>"

definition noOptions :: "'a RefsOptions" where
  "noOptions = \<lparr>filter_opt = None, sort_opt = False\<rparr>"

section \<open>Theorems\<close>

subsection \<open>Repository change events\<close>

text \<open>
  C9. A change event in which only stashes changed leaves the whole service state as it is
  (branches, tags, tracked-file and user caches included); after any other change event the
  branches cache and the tags cache hold no entry for the repository that changed.
\<close>

theorem C9_stash_only_changes_keep_caches:
  "(changed e Stashes True \<longrightarrow> onAnyRepositoryChanged s repo e = s) \<and>
   (\<not> changed e Stashes True \<longrightarrow>
      branchesCache (onAnyRepositoryChanged s repo e) (repo_path repo) = None \<and>
      tagsCache (onAnyRepositoryChanged s repo e) (repo_path repo) = None)"
  by (simp add: onAnyRepositoryChanged_def Let_def)

theorem C9_stash_only_changes_keep_caches_witness:
  "changed (changesEvent [Stashes]) Stashes True \<and>
   onAnyRepositoryChanged demoService demoRepository (changesEvent [Stashes]) = demoService \<and>
   \<not> changed (changesEvent [Config]) Stashes True \<and>
   branchesCache (onAnyRepositoryChanged demoService demoRepository (changesEvent [Config]))
     (repo_path demoRepository) = None \<and>
   tagsCache (onAnyRepositoryChanged demoService demoRepository (changesEvent [Config]))
     (repo_path demoRepository) = None"
  using C9_stash_only_changes_keep_caches [of "changesEvent [Stashes]" demoService demoRepository]
    C9_stash_only_changes_keep_caches [of "changesEvent [Config]" demoService demoRepository]
  by (simp add: changesEvent_def)

subsection \<open>The caching switch\<close>

text \<open>
  C6. With \<open>advanced.caching.enabled\<close> switched off, \<open>getTags\<close> still answers from
  \<open>_tagsCache\<close> when it holds an entry (no \<open>git tag\<close> subprocess is started), and on a miss
  it still stores what it fetched; \<open>getBranches\<close> on the same service state goes to git and
  leaves \<open>_branchesCache\<close> alone.
\<close>

theorem C6_getTags_ignores_caching_switch:
  "\<not> useCaching demoService \<and>
   getTags demoRefsEnv demoService (Some ''/repo'') noOptions = (Inr [''v1.0''], demoService) \<and>
   tagsCache (snd (getTags demoRefsEnv (demoService\<lparr>tagsCache := Map.empty\<rparr>) (Some ''/repo'')
     noOptions)) ''/repo'' = Some [''v1.0'', ''v2.0''] \<and>
   fst (getBranches demoRefsEnv demoService (Some ''/repo'') noOptions)
     = Inr [''master'', ''develop''] \<and>
   spawned (snd (getBranches demoRefsEnv demoService (Some ''/repo'') noOptions))
     = [Git_for_each_ref__branch ''/repo''] \<and>
   branchesCache (snd (getBranches demoRefsEnv demoService (Some ''/repo'') noOptions))
     = branchesCache demoService"
  by (simp add: getTags_def getBranches_def refsFinally_def noOptions_def demoService_def
      demoRefsEnv_def demoRepository_def Let_def)

subsection \<open>Cached retrieval\<close>

lemma useCaching_stateSet [simp]: "useCaching (stateSet doc key v s) = useCaching s"
  by (simp add: stateSet_def split: option.splits)

lemma cores_stateSet [simp]: "cores (stateSet doc key v s) = cores s"
  by (simp add: stateSet_def split: option.splits)

lemma spawned_stateSet [simp]: "spawned (stateSet doc key v s) = spawned s"
  by (simp add: stateSet_def split: option.splits)

lemma cacheGet_stateSet:
  "cacheGet (stateSet doc key v s) doc' key' =
     (if doc' = doc \<and> key' = key \<and> doc_state (tracker s doc) \<noteq> None then Some v
      else cacheGet s doc' key')"
  by (auto simp: stateSet_def cacheGet_def split: option.splits)

lemma cores_setBlameFailure [simp]: "cores (setBlameFailure doc s) = cores s"
  by (simp add: setBlameFailure_def)

lemma cacheGet_setStatus [simp]: "cacheGet (setStatus pid st s) doc key = cacheGet s doc key"
  by (simp add: cacheGet_def setStatus_def)

lemma cacheGet_setBlameFailure [simp]: "cacheGet (setBlameFailure d s) doc key = cacheGet s doc key"
  by (simp add: cacheGet_def setBlameFailure_def)

lemma promiseValue_setStatus:
  "pid < length (cores s) \<Longrightarrow> promiseValue (setStatus pid (Settled v) s) (Promise pid) = Some v"
  by (simp add: promiseValue_def setStatus_def)



subsubsection \<open>getBlameForFile\<close>

lemma getBlameForFile_hit:
  "useCaching s \<Longrightarrow> cacheGet s (documentKey env uri) (blameKey uri) = Some c \<Longrightarrow>
   getBlameForFile env s uri = (item c, s)"
  by (simp add: getBlameForFile_def Let_def)





subsubsection \<open>getBlameForFileContents\<close>

lemma getBlameForFileContents_hit:
  "useCaching s \<Longrightarrow> cacheGet s (documentKey env uri) (blameContentsKey env contents) = Some c \<Longrightarrow>
   getBlameForFileContents env s uri contents = (item c, s)"
  by (simp add: getBlameForFileContents_def Let_def)





subsubsection \<open>getDiffForFile\<close>

lemma getDiffForFile_hit:
  "useCaching s \<Longrightarrow> cacheGet s (documentKey env uri) (diffKey ref1 ref2) = Some c \<Longrightarrow>
   getDiffForFile env s uri ref1 ref2 orig = (item c, s)"
  by (simp add: getDiffForFile_def Let_def)





subsubsection \<open>getLogForFile\<close>

lemma fo_range_defaults [simp]: "fo_range (fileLogDefaults env opts) = fo_range opts"
  by (simp add: fileLogDefaults_def)

lemma fo_ref_defaults [simp]: "fo_ref (fileLogDefaults env opts) = fo_ref opts"
  by (simp add: fileLogDefaults_def)

lemma fo_limit_defaults [simp]: "fo_limit (fileLogDefaults env opts) \<noteq> None"
  by (simp add: fileLogDefaults_def)

lemma getLogForFile_miss_facts:
  "fst (getLogForFile_miss caching s repoPath fileName options doc key) = Promise (length (cores s))"
  "length (cores (snd (getLogForFile_miss caching s repoPath fileName options doc key)))
     = Suc (length (cores s))"
  "spawned (snd (getLogForFile_miss caching s repoPath fileName options doc key)) = spawned s"
  "useCaching (snd (getLogForFile_miss caching s repoPath fileName options doc key)) = useCaching s"
  by (simp_all add: getLogForFile_miss_def getLogForFileCore_def startCore_def newState_def Let_def)

lemma getLogForFile_miss_core:
  "cores (snd (getLogForFile_miss caching s repoPath fileName options doc key))
     = cores s @ [\<lparr>core_call = LogCore repoPath fileName options doc key, core_status = AwaitTracked\<rparr>]"
  by (simp add: getLogForFile_miss_def getLogForFileCore_def startCore_def newState_def Let_def)



lemma getLogForFile_throws:
  "repoPath = Some (normalizePath env fileName) \<Longrightarrow>
   getLogForFile env s repoPath fileName opts
     = Inl (Error (''File name cannot match the repository path; fileName='' @ fileName))"
  by (simp add: getLogForFile_def)

lemma getLogForFile_cached:
  assumes "useCaching s" "fo_range opts = None" "repoPath \<noteq> Some (normalizePath env fileName)"
  shows "getLogForFile env s repoPath fileName opts =
     (case cacheGet s (logDocument env repoPath fileName opts) (logKey (fileLogDefaults env opts)) of
        Some c \<Rightarrow> Inr (Returns (item c), s)
      | None \<Rightarrow>
          (case cacheGet s (logDocument env repoPath fileName opts)
                  (wholeLogKey (fileLogDefaults env opts)) of
             Some c \<Rightarrow> if fo_ref opts = None then Inr (Returns (item c), s)
                       else Inr (AwaitsCached (item c), s)
           | None \<Rightarrow>
               Inr (Returns (Promise (length (cores s))),
                    snd (getLogForFile_miss True s repoPath fileName (fileLogDefaults env opts)
                           (logDocument env repoPath fileName opts)
                           (logKey (fileLogDefaults env opts))))))"
proof -
  have m: "\<And>c d k.
      (case getLogForFile_miss c s repoPath fileName (fileLogDefaults env opts) d k
       of (promise, s') \<Rightarrow> Inr (Returns promise, s'))
      = Inr (Returns (Promise (length (cores s))),
             snd (getLogForFile_miss c s repoPath fileName (fileLogDefaults env opts) d k))"
    by (simp add: case_prod_unfold Let_def getLogForFile_miss_facts(1))
  show ?thesis
    using assms
    by (simp add: getLogForFile_def Let_def logDocument_def cacheGet_def m split: option.split)
qed

lemma getLogForFile_hit:
  assumes "useCaching s" "fo_range opts = None" "repoPath \<noteq> Some (normalizePath env fileName)"
    "cacheGet s (logDocument env repoPath fileName opts) (logKey (fileLogDefaults env opts)) = Some c"
  shows "getLogForFile env s repoPath fileName opts = Inr (Returns (item c), s)"
  using assms by (simp add: getLogForFile_cached)




subsubsection \<open>The cores\<close>




lemma core_git_returned_spawned: "spawned (core_git_returned s pid r) = spawned s"
proof (cases "pid < length (cores s) \<and> core_status (cores s ! pid) = AwaitGit")
  case False
  then show ?thesis by (auto simp: core_git_returned_def)
next
  case True
  have st: "\<And>v t. spawned (setStatus pid v t) = spawned t" by (simp add: setStatus_def)
  have bf: "\<And>d t. spawned (setBlameFailure d t) = spawned t" by (simp add: setBlameFailure_def)
  show ?thesis
    using True
    by (cases "core_call (cores s ! pid)"; cases r)
       (simp_all add: core_git_returned_def Let_def st bf cacheReplaceWithEmpty_def
          split: option.split Result.split)
qed

lemma core_git_returned_failure:
  assumes "pid < length (cores s)" "core_status (cores s ! pid) = AwaitGit"
    "doc_state (tracker s (coreDocument (core_call (cores s ! pid)))) \<noteq> None"
    "cachesFailure (core_call (cores s ! pid))"
  shows "core_git_returned s pid (Inl ex) =
           setStatus pid (Settled None)
             ((case core_call (cores s ! pid) of
                 BlameCore uri document key \<Rightarrow> setBlameFailure document
               | BlameContentsCore uri contents document key \<Rightarrow> setBlameFailure document
               | _ \<Rightarrow> (\<lambda>t. t))
              (cacheReplaceWithEmpty (coreDocument (core_call (cores s ! pid)))
                 (coreKey (core_call (cores s ! pid))) ex s))"
  using assms
  by (cases "core_call (cores s ! pid)")
     (simp_all add: core_git_returned_def Let_def coreDocument_def coreKey_def cachesFailure_def)

lemma core_git_returned_failure_facts:
  assumes "pid < length (cores s)" "core_status (cores s ! pid) = AwaitGit"
    "doc_state (tracker s (coreDocument (core_call (cores s ! pid)))) \<noteq> None"
    "cachesFailure (core_call (cores s ! pid))"
  shows "cacheGet (core_git_returned s pid (Inl ex)) (coreDocument (core_call (cores s ! pid)))
           (coreKey (core_call (cores s ! pid)))
         = Some \<lparr>item = emptyPromise, errorMessage = Some (error_toString ex)\<rparr>"
    and "promiseValue (core_git_returned s pid (Inl ex)) (Promise pid) = Some None"
    and "useCaching (core_git_returned s pid (Inl ex)) = useCaching s"
proof -
  note eq = core_git_returned_failure [OF assms, of ex]
  show "cacheGet (core_git_returned s pid (Inl ex)) (coreDocument (core_call (cores s ! pid)))
           (coreKey (core_call (cores s ! pid)))
         = Some \<lparr>item = emptyPromise, errorMessage = Some (error_toString ex)\<rparr>"
    unfolding eq using assms(3)
    by (cases "core_call (cores s ! pid)")
       (simp_all add: cacheReplaceWithEmpty_def cacheGet_stateSet)
  show "promiseValue (core_git_returned s pid (Inl ex)) (Promise pid) = Some None"
    unfolding eq using assms(1)
    by (cases "core_call (cores s ! pid)")
       (simp_all add: promiseValue_setStatus cacheReplaceWithEmpty_def)
  show "useCaching (core_git_returned s pid (Inl ex)) = useCaching s"
    unfolding eq
    by (cases "core_call (cores s ! pid)")
       (simp_all add: setStatus_def setBlameFailure_def cacheReplaceWithEmpty_def)
qed

lemma core_untracked:
  assumes "pid < length (cores s)" "core_status (cores s ! pid) = AwaitTracked"
    "core_call (cores s ! pid) = LogCore repoPath fileName options document key"
  shows "promiseValue (core_isTracked_returned env s pid False) (Promise pid) = Some None"
    and "spawned (core_isTracked_returned env s pid False) = spawned s"
  using assms
  by (simp_all add: core_isTracked_returned_def isTracked_def promiseValue_setStatus)
     (simp_all add: setStatus_def)

lemma logDocument_defaults [simp]:
  "logDocument env repoPath fileName (fileLogDefaults env opts) = logDocument env repoPath fileName opts"
  by (simp add: logDocument_def)

lemma getLogForFile_uncached:
  assumes "\<not> (useCaching s \<and> fo_range opts = None)" "repoPath \<noteq> Some (normalizePath env fileName)"
  shows "getLogForFile env s repoPath fileName opts =
           Inr (Returns (Promise (length (cores s))),
                snd (getLogForFile_miss False s repoPath fileName (fileLogDefaults env opts)
                       (logDocument env repoPath fileName opts) (logKey (fileLogDefaults env opts))))"
proof -
  have m: "\<And>c d k.
      (case getLogForFile_miss c s repoPath fileName (fileLogDefaults env opts) d k
       of (promise, s') \<Rightarrow> Inr (Returns promise, s'))
      = Inr (Returns (Promise (length (cores s))),
             snd (getLogForFile_miss c s repoPath fileName (fileLogDefaults env opts) d k))"
    by (simp add: case_prod_unfold Let_def getLogForFile_miss_facts(1))
  show ?thesis
  proof (cases "useCaching s")
    case False
    then show ?thesis using assms(2) by (simp add: getLogForFile_def Let_def m)
  next
    case True
    with assms(1) obtain rg where "fo_range opts = Some rg" by auto
    then show ?thesis using assms(2) by (simp add: getLogForFile_def Let_def m)
  qed
qed

lemma getLogForFile_started_core:
  assumes "getLogForFile env s repoPath fileName opts = Inr (Returns p, s1)"
    "length (cores s1) = Suc (length (cores s))"
  shows "p = Promise (length (cores s)) \<and>
         (\<exists>d k options. cores s1 = cores s @
            [\<lparr>core_call = LogCore repoPath fileName options d k, core_status = AwaitTracked\<rparr>])"
proof -
  have nt: "repoPath \<noteq> Some (normalizePath env fileName)"
    using assms(1) by (auto simp: getLogForFile_def)
  show ?thesis
  proof (cases "useCaching s \<and> fo_range opts = None")
    case False
    from getLogForFile_uncached [OF False nt] assms(1) show ?thesis
      by (auto simp: getLogForFile_miss_core)
  next
    case True
    then have uc: "useCaching s" and rg: "fo_range opts = None" by simp_all
    note eq = getLogForFile_cached [OF uc rg nt]
    show ?thesis
      using eq assms
      by (auto simp: getLogForFile_miss_core split: option.splits if_splits)
  qed
qed


lemma demo_logDocument:
  "logDocument demoEnv (Some ''/repo'') ''a.txt'' opts = ''/repo/a.txt''"
  by (simp add: logDocument_def GitUri_fromFile_def GitUri_resolve_def demoEnv_def startsWith_def
      Let_def)

lemma demo_keys:
  "logKey (fileLogDefaults demoEnv rangeOptions) = ''log:n200''"
  "logKey (fileLogDefaults demoEnv reverseOptions) = ''log:n200:reverse''"
  "logKey (fileLogDefaults demoEnv noFileLogOptions) = ''log:n200''"
  "wholeLogKey (fileLogDefaults demoEnv noFileLogOptions) = ''log''"
  "blameKey demoUri = ''blame''"
  by (simp_all add: logKey_def wholeLogKey_def fileLogDefaults_def rangeOptions_def reverseOptions_def
      noFileLogOptions_def demoEnv_def optLimit_def optRenames_def optReverse_def showNat.simps
      blameKey_def demoUri_def)

lemma getLogForFile_miss_range_eq:
  "fo_range options \<noteq> None \<Longrightarrow>
   getLogForFile_miss False s repoPath fileName options doc key
     = (Promise (length (cores s)),
        s\<lparr>cores := cores s @
             [\<lparr>core_call = LogCore repoPath fileName options doc key, core_status = AwaitTracked\<rparr>]\<rparr>)"
  by (auto simp: getLogForFile_miss_def getLogForFileCore_def startCore_def Let_def)



subsection \<open>Failures cached as the empty promise\<close>

text \<open>
  C2 (amended). With caching enabled, when the git subprocess of a core fails and the
  document has a state, the core's own promise resolves with \<open>undefined\<close> and no subprocess
  is started. For a blame, blame-contents or diff core, and for a file log core of a request
  without a range that is not reversed, the cache entry under the core's key is replaced by
  \<open>emptyPromise\<close> (which is resolved with \<open>undefined\<close>) together with the text of the error,
  \<open>ex.toString()\<close>, and a following identical request returns \<open>emptyPromise\<close> with nothing
  changed. For a file log core of a request with a range or in reverse order, no document
  is changed: every cache entry is left as it was.
\<close>

theorem C2_failure_cached_as_empty_promise:
  assumes "useCaching s"
    and "pid < length (cores s)"
    and "core_status (cores s ! pid) = AwaitGit"
    and "doc_state (tracker s (coreDocument (core_call (cores s ! pid)))) \<noteq> None"
    and "s' = core_git_returned s pid (Inl ex)"
  shows
    "promiseValue s' emptyPromise = Some None \<and>
     promiseValue s' (Promise pid) = Some None \<and>
     spawned s' = spawned s \<and>
     (cachesFailure (core_call (cores s ! pid)) \<longrightarrow>
        cacheGet s' (coreDocument (core_call (cores s ! pid))) (coreKey (core_call (cores s ! pid)))
          = Some \<lparr>item = emptyPromise, errorMessage = Some (error_toString ex)\<rparr> \<and>
        (core_call (cores s ! pid) = BlameCore uri (documentKey env uri) (blameKey uri) \<longrightarrow>
           getBlameForFile env s' uri = (emptyPromise, s')) \<and>
        (core_call (cores s ! pid)
           = BlameContentsCore uri contents (documentKey env uri) (blameContentsKey env contents) \<longrightarrow>
           getBlameForFileContents env s' uri contents = (emptyPromise, s')) \<and>
        (core_call (cores s ! pid)
           = DiffCore (uri_repoPath uri) (uri_fsPath uri) ref1 ref2 orig (documentKey env uri)
               (diffKey ref1 ref2) \<longrightarrow>
           getDiffForFile env s' uri ref1 ref2 orig = (emptyPromise, s')) \<and>
        (core_call (cores s ! pid)
           = LogCore repoPath fileName (fileLogDefaults env opts)
               (logDocument env repoPath fileName (fileLogDefaults env opts))
               (logKey (fileLogDefaults env opts)) \<and>
         repoPath \<noteq> Some (normalizePath env fileName) \<longrightarrow>
           getLogForFile env s' repoPath fileName opts = Inr (Returns emptyPromise, s'))) \<and>
     (core_call (cores s ! pid) = LogCore repoPath' fileName' opts' document key \<and>
      (fo_range opts' \<noteq> None \<or> optReverse opts') \<longrightarrow>
        tracker s' = tracker s)"
proof -
  have sp: "spawned s' = spawned s" unfolding assms(5) by (rule core_git_returned_spawned)
  have pe: "promiseValue s' emptyPromise = Some None" by (simp add: promiseValue_def)
  have n: "s' = setStatus pid (Settled None) s"
    if "core_call (cores s ! pid) = LogCore repoPath' fileName' opts' document key"
      and "fo_range opts' \<noteq> None \<or> optReverse opts'"
    using that assms(2,3) unfolding assms(5) by (auto simp: core_git_returned_def Let_def)
  have nt: "tracker s' = tracker s"
    if "core_call (cores s ! pid) = LogCore repoPath' fileName' opts' document key \<and>
        (fo_range opts' \<noteq> None \<or> optReverse opts')"
    using n that by (simp add: setStatus_def)
  have pv: "promiseValue s' (Promise pid) = Some None"
  proof (cases "cachesFailure (core_call (cores s ! pid))")
    case True
    from core_git_returned_failure_facts(2) [OF assms(2-4) True, of ex] show ?thesis
      unfolding assms(5) .
  next
    case False
    then obtain rp fn lo d k where c: "core_call (cores s ! pid) = LogCore rp fn lo d k"
      and g: "fo_range lo \<noteq> None \<or> optReverse lo"
      by (cases "core_call (cores s ! pid)") (auto simp: cachesFailure_def)
    from c g assms(2,3) have "s' = setStatus pid (Settled None) s"
      unfolding assms(5) by (auto simp: core_git_returned_def Let_def)
    with promiseValue_setStatus [OF assms(2)] show ?thesis by simp
  qed
  have cached:
    "cacheGet s' (coreDocument (core_call (cores s ! pid))) (coreKey (core_call (cores s ! pid)))
       = Some \<lparr>item = emptyPromise, errorMessage = Some (error_toString ex)\<rparr> \<and>
     (core_call (cores s ! pid) = BlameCore uri (documentKey env uri) (blameKey uri) \<longrightarrow>
        getBlameForFile env s' uri = (emptyPromise, s')) \<and>
     (core_call (cores s ! pid)
        = BlameContentsCore uri contents (documentKey env uri) (blameContentsKey env contents) \<longrightarrow>
        getBlameForFileContents env s' uri contents = (emptyPromise, s')) \<and>
     (core_call (cores s ! pid)
        = DiffCore (uri_repoPath uri) (uri_fsPath uri) ref1 ref2 orig (documentKey env uri)
            (diffKey ref1 ref2) \<longrightarrow>
        getDiffForFile env s' uri ref1 ref2 orig = (emptyPromise, s')) \<and>
     (core_call (cores s ! pid)
        = LogCore repoPath fileName (fileLogDefaults env opts)
            (logDocument env repoPath fileName (fileLogDefaults env opts))
            (logKey (fileLogDefaults env opts)) \<and>
      repoPath \<noteq> Some (normalizePath env fileName) \<longrightarrow>
        getLogForFile env s' repoPath fileName opts = Inr (Returns emptyPromise, s'))"
    if cf: "cachesFailure (core_call (cores s ! pid))"
  proof -
    note f = core_git_returned_failure_facts [OF assms(2-4) cf, of ex, folded assms(5)]
    have uc: "useCaching s'" using f(3) assms(1) by simp
    have b: "getBlameForFile env s' uri = (emptyPromise, s')"
      if "core_call (cores s ! pid) = BlameCore uri (documentKey env uri) (blameKey uri)"
      using getBlameForFile_hit [OF uc, of env uri] f(1) that
      by (simp add: coreDocument_def coreKey_def)
    have bc: "getBlameForFileContents env s' uri contents = (emptyPromise, s')"
      if "core_call (cores s ! pid)
          = BlameContentsCore uri contents (documentKey env uri) (blameContentsKey env contents)"
      using getBlameForFileContents_hit [OF uc, of env uri contents] f(1) that
      by (simp add: coreDocument_def coreKey_def)
    have d: "getDiffForFile env s' uri ref1 ref2 orig = (emptyPromise, s')"
      if "core_call (cores s ! pid)
          = DiffCore (uri_repoPath uri) (uri_fsPath uri) ref1 ref2 orig (documentKey env uri)
              (diffKey ref1 ref2)"
      using getDiffForFile_hit [OF uc, of env uri ref1 ref2] f(1) that
      by (simp add: coreDocument_def coreKey_def)
    have l: "getLogForFile env s' repoPath fileName opts = Inr (Returns emptyPromise, s')"
      if c: "core_call (cores s ! pid)
          = LogCore repoPath fileName (fileLogDefaults env opts)
              (logDocument env repoPath fileName (fileLogDefaults env opts))
              (logKey (fileLogDefaults env opts))"
        and nt: "repoPath \<noteq> Some (normalizePath env fileName)"
    proof -
      from cf c have rg: "fo_range opts = None" by (simp add: cachesFailure_def)
      from f(1) c have "cacheGet s' (logDocument env repoPath fileName opts)
                          (logKey (fileLogDefaults env opts))
                        = Some \<lparr>item = emptyPromise, errorMessage = Some (error_toString ex)\<rparr>"
        by (simp add: coreDocument_def coreKey_def)
      from getLogForFile_hit [OF uc rg nt this] show ?thesis by simp
    qed
    show ?thesis using f(1) b bc d l by blast
  qed
  show ?thesis using pe pv sp cached nt by blast
qed

text \<open>
  C2 as stated fails for a file log requested in reverse order: the failure of its git
  subprocess leaves the cache entry as it was, the promise of the core without any error
  text. (That promise resolves with \<open>undefined\<close>.)
\<close>

theorem C2_reversed_log_failure_not_cached:
  "useCaching demoWorld \<and>
   getLogForFile demoEnv demoWorld (Some ''/repo'') ''a.txt'' reverseOptions
     = Inr (Returns (Promise 0), reverseWorld) \<and>
   spawned (core_isTracked_returned demoEnv reverseWorld 0 True)
     = [Git_log__file ''/repo'' ''a.txt'' None] \<and>
   cacheGet
     (core_git_returned (core_isTracked_returned demoEnv reverseWorld 0 True) 0
        (Inl (Error ''fatal: bad revision'')))
     ''/repo/a.txt'' ''log:n200:reverse''
     = Some \<lparr>item = Promise 0, errorMessage = None\<rparr> \<and>
   promiseValue
     (core_git_returned (core_isTracked_returned demoEnv reverseWorld 0 True) 0
        (Inl (Error ''fatal: bad revision'')))
     (Promise 0)
     = Some None"
proof -
  have uc: "useCaching demoWorld" by (simp add: demoWorld_def)
  have rg: "fo_range reverseOptions = None"
    by (simp add: reverseOptions_def noFileLogOptions_def)
  have np: "Some ''/repo'' \<noteq> Some (normalizePath demoEnv ''a.txt'')"
    by (simp add: demoEnv_def)
  have miss: "cacheGet demoWorld ''/repo/a.txt'' k = None" for k
    by (simp add: cacheGet_def demoWorld_def)
  have ln: "length (cores demoWorld) = 0" by (simp add: demoWorld_def)
  have wk: "wholeLogKey (fileLogDefaults demoEnv reverseOptions) = ''log:reverse''"
    by (simp add: wholeLogKey_def fileLogDefaults_def reverseOptions_def noFileLogOptions_def
        demoEnv_def optRenames_def optReverse_def)
  have m: "getLogForFile_miss True demoWorld (Some ''/repo'') ''a.txt''
             (fileLogDefaults demoEnv reverseOptions) ''/repo/a.txt'' ''log:n200:reverse''
           = (Promise 0, reverseWorld)"
    by (simp add: getLogForFile_miss_def getLogForFileCore_def startCore_def newState_def
        stateSet_def Let_def rg reverseWorld_def)
       (simp add: demoWorld_def)
  have call: "getLogForFile demoEnv demoWorld (Some ''/repo'') ''a.txt'' reverseOptions
     = Inr (Returns (Promise 0), reverseWorld)"
    unfolding getLogForFile_cached [OF uc rg np] demo_logDocument demo_keys wk
    by (simp add: miss m ln)
  have c0: "cores reverseWorld
            = [\<lparr>core_call = LogCore (Some ''/repo'') ''a.txt'' (fileLogDefaults demoEnv reverseOptions)
                               ''/repo/a.txt'' ''log:n200:reverse'',
                 core_status = AwaitTracked\<rparr>]"
    by (simp add: reverseWorld_def)
  have rf: "fo_ref reverseOptions = None"
    by (simp add: reverseOptions_def noFileLogOptions_def)
  have rv: "optReverse (fileLogDefaults demoEnv reverseOptions)"
    by (simp add: fileLogDefaults_def optReverse_def reverseOptions_def noFileLogOptions_def)
  have t: "core_isTracked_returned demoEnv reverseWorld 0 True
           = setStatus 0 AwaitGit (spawn (Git_log__file ''/repo'' ''a.txt'' None) reverseWorld)"
    by (simp add: core_isTracked_returned_def c0 isTracked_def rf)
       (simp add: demoEnv_def)
  have g: "core_git_returned (core_isTracked_returned demoEnv reverseWorld 0 True) 0
             (Inl (Error ''fatal: bad revision''))
           = setStatus 0 (Settled None)
               (setStatus 0 AwaitGit (spawn (Git_log__file ''/repo'' ''a.txt'' None) reverseWorld))"
    unfolding t
    by (simp add: core_git_returned_def setStatus_def spawn_def c0 Let_def rv)
  have sp: "spawned (core_isTracked_returned demoEnv reverseWorld 0 True)
     = [Git_log__file ''/repo'' ''a.txt'' None]"
    unfolding t by (simp add: setStatus_def spawn_def reverseWorld_def demoWorld_def)
  have cg: "cacheGet (setStatus 0 (Settled None)
               (setStatus 0 AwaitGit (spawn (Git_log__file ''/repo'' ''a.txt'' None) reverseWorld)))
             ''/repo/a.txt'' ''log:n200:reverse''
            = Some \<lparr>item = Promise 0, errorMessage = None\<rparr>"
    by simp (simp add: spawn_def cacheGet_def reverseWorld_def)
  have pv: "promiseValue (setStatus 0 (Settled None)
               (setStatus 0 AwaitGit (spawn (Git_log__file ''/repo'' ''a.txt'' None) reverseWorld)))
             (Promise 0) = Some None"
    by (rule promiseValue_setStatus) (simp add: setStatus_def spawn_def c0)
  show ?thesis using uc call sp cg pv unfolding g by simp
qed

theorem C2_failure_cached_as_empty_promise_witness:
  "useCaching blameWorld \<and> 0 < length (cores blameWorld) \<and>
   core_status (cores blameWorld ! 0) = AwaitGit \<and>
   core_call (cores blameWorld ! 0) = BlameCore demoUri ''/repo/a.txt'' ''blame'' \<and>
   doc_state (tracker blameWorld ''/repo/a.txt'') \<noteq> None \<and>
   cacheGet (core_git_returned blameWorld 0 (Inl (Error ''fatal: no such path''))) ''/repo/a.txt''
     ''blame''
     = Some \<lparr>item = emptyPromise, errorMessage = Some ''Error: fatal: no such path''\<rparr> \<and>
   promiseValue (core_git_returned blameWorld 0 (Inl (Error ''fatal: no such path''))) (Promise 0)
     = Some None \<and>
   spawned (core_git_returned blameWorld 0 (Inl (Error ''fatal: no such path'')))
     = [Git_blame ''/repo'' ''/repo/a.txt'' None] \<and>
   getBlameForFile demoEnv (core_git_returned blameWorld 0 (Inl (Error ''fatal: no such path'')))
     demoUri
     = (emptyPromise, core_git_returned blameWorld 0 (Inl (Error ''fatal: no such path''))) \<and>
   cacheGet (core_git_returned blameWorld 0 (Inl (Error ''''))) ''/repo/a.txt'' ''blame''
     = Some \<lparr>item = emptyPromise, errorMessage = Some ''Error''\<rparr> \<and>
   cacheGet (core_git_returned blameWorld 0 (Inl (TypeError ''x is not a function'')))
     ''/repo/a.txt'' ''blame''
     = Some \<lparr>item = emptyPromise, errorMessage = Some ''TypeError: x is not a function''\<rparr> \<and>
   useCaching reverseGitWorld \<and> 0 < length (cores reverseGitWorld) \<and>
   core_status (cores reverseGitWorld ! 0) = AwaitGit \<and>
   core_call (cores reverseGitWorld ! 0)
     = LogCore (Some ''/repo'') ''a.txt'' (fileLogDefaults demoEnv reverseOptions) ''/repo/a.txt''
         ''log:n200:reverse'' \<and>
   optReverse (fileLogDefaults demoEnv reverseOptions) \<and>
   doc_state (tracker reverseGitWorld ''/repo/a.txt'') \<noteq> None \<and>
   tracker (core_git_returned reverseGitWorld 0 (Inl (Error ''fatal: bad revision'')))
     = tracker reverseGitWorld \<and>
   promiseValue (core_git_returned reverseGitWorld 0 (Inl (Error ''fatal: bad revision'')))
     (Promise 0)
     = Some None"
proof -
  have uc: "useCaching blameWorld" by (simp add: blameWorld_def demoWorld_def)
  have ln: "0 < length (cores blameWorld)" by (simp add: blameWorld_def)
  have st: "core_status (cores blameWorld ! 0) = AwaitGit" by (simp add: blameWorld_def)
  have cl: "core_call (cores blameWorld ! 0) = BlameCore demoUri ''/repo/a.txt'' ''blame''"
    by (simp add: blameWorld_def)
  have ds: "doc_state (tracker blameWorld ''/repo/a.txt'') \<noteq> None"
    by (simp add: blameWorld_def)
  have ds': "doc_state (tracker blameWorld (coreDocument (core_call (cores blameWorld ! 0)))) \<noteq> None"
    unfolding cl using ds by (simp add: coreDocument_def)
  have cf: "cachesFailure (core_call (cores blameWorld ! 0))"
    unfolding cl by (simp add: cachesFailure_def)
  have dk: "documentKey demoEnv demoUri = ''/repo/a.txt''"
    by (simp add: demoEnv_def demoUri_def)
  have sp: "spawned blameWorld = [Git_blame ''/repo'' ''/repo/a.txt'' None]"
    by (simp add: blameWorld_def)
  note T = C2_failure_cached_as_empty_promise [OF uc ln st ds' refl, of _ demoUri demoEnv]
  have b1: "cacheGet (core_git_returned blameWorld 0 (Inl (Error ''fatal: no such path'')))
              ''/repo/a.txt'' ''blame''
            = Some \<lparr>item = emptyPromise, errorMessage = Some ''Error: fatal: no such path''\<rparr> \<and>
          promiseValue (core_git_returned blameWorld 0 (Inl (Error ''fatal: no such path'')))
            (Promise 0) = Some None \<and>
          spawned (core_git_returned blameWorld 0 (Inl (Error ''fatal: no such path'')))
            = [Git_blame ''/repo'' ''/repo/a.txt'' None] \<and>
          getBlameForFile demoEnv
            (core_git_returned blameWorld 0 (Inl (Error ''fatal: no such path''))) demoUri
            = (emptyPromise, core_git_returned blameWorld 0 (Inl (Error ''fatal: no such path'')))"
    using T [of "Error ''fatal: no such path''"] cf sp
    by (simp add: cl coreDocument_def coreKey_def dk demo_keys error_toString_def)
  have b2: "cacheGet (core_git_returned blameWorld 0 (Inl (Error ''''))) ''/repo/a.txt'' ''blame''
            = Some \<lparr>item = emptyPromise, errorMessage = Some ''Error''\<rparr>"
    using T [of "Error ''''"] cf
    by (simp add: cl coreDocument_def coreKey_def error_toString_def)
  have b3: "cacheGet (core_git_returned blameWorld 0 (Inl (TypeError ''x is not a function'')))
              ''/repo/a.txt'' ''blame''
            = Some \<lparr>item = emptyPromise, errorMessage = Some ''TypeError: x is not a function''\<rparr>"
    using T [of "TypeError ''x is not a function''"] cf
    by (simp add: cl coreDocument_def coreKey_def error_toString_def)
  have ruc: "useCaching reverseGitWorld"
    by (simp add: reverseGitWorld_def reverseWorld_def demoWorld_def)
  have rln: "0 < length (cores reverseGitWorld)" by (simp add: reverseGitWorld_def)
  have rst: "core_status (cores reverseGitWorld ! 0) = AwaitGit" by (simp add: reverseGitWorld_def)
  have rcl: "core_call (cores reverseGitWorld ! 0)
             = LogCore (Some ''/repo'') ''a.txt'' (fileLogDefaults demoEnv reverseOptions)
                 ''/repo/a.txt'' ''log:n200:reverse''"
    by (simp add: reverseGitWorld_def)
  have rv: "optReverse (fileLogDefaults demoEnv reverseOptions)"
    by (simp add: fileLogDefaults_def optReverse_def reverseOptions_def noFileLogOptions_def)
  have rds: "doc_state (tracker reverseGitWorld ''/repo/a.txt'') \<noteq> None"
    by (simp add: reverseGitWorld_def reverseWorld_def)
  have rds': "doc_state (tracker reverseGitWorld
                (coreDocument (core_call (cores reverseGitWorld ! 0)))) \<noteq> None"
    unfolding rcl using rds by (simp add: coreDocument_def)
  from C2_failure_cached_as_empty_promise [OF ruc rln rst rds' refl,
      of "Error ''fatal: bad revision''" _ _ _ _ _ _ _ _ _ "Some ''/repo''" "''a.txt''"
         "fileLogDefaults demoEnv reverseOptions" "''/repo/a.txt''" "''log:n200:reverse''"]
    rcl rv
  have r: "tracker (core_git_returned reverseGitWorld 0 (Inl (Error ''fatal: bad revision'')))
             = tracker reverseGitWorld \<and>
           promiseValue (core_git_returned reverseGitWorld 0 (Inl (Error ''fatal: bad revision'')))
             (Promise 0) = Some None"
    by blast
  show ?thesis
    using uc ln st cl ds b1 b2 b3 ruc rln rst rcl rv rds r by (intro conjI) blast+
qed

subsection \<open>When getLogForFile throws\<close>

text \<open>
  C10. \<open>getLogForFile\<close> throws an \<open>Error\<close> exactly when \<open>repoPath\<close> is defined and equal to the
  normalized file name. For every other input the call does not throw, and when it has
  started a core and \<open>isTracked\<close> answers that the file is not tracked, the promise it
  returned resolves with \<open>undefined\<close>, the value of the empty promise, and no subprocess is
  started.
\<close>

theorem C10_getLogForFile_throws_only_for_repo_path:
  "(repoPath = Some (normalizePath env fileName) \<longrightarrow>
      getLogForFile env s repoPath fileName opts
        = Inl (Error (''File name cannot match the repository path; fileName='' @ fileName))) \<and>
   (repoPath \<noteq> Some (normalizePath env fileName) \<longrightarrow>
      (\<exists>r s'. getLogForFile env s repoPath fileName opts = Inr (r, s'))) \<and>
   (getLogForFile env s repoPath fileName opts = Inr (Returns p, s1) \<and>
    length (cores s1) = Suc (length (cores s)) \<longrightarrow>
      p = Promise (length (cores s)) \<and>
      promiseValue (core_isTracked_returned env s1 (length (cores s)) False) p = Some None \<and>
      promiseValue (core_isTracked_returned env s1 (length (cores s)) False) emptyPromise = Some None \<and>
      spawned (core_isTracked_returned env s1 (length (cores s)) False) = spawned s1)"
proof -
  have a: "repoPath \<noteq> Some (normalizePath env fileName) \<Longrightarrow>
           \<exists>r s'. getLogForFile env s repoPath fileName opts = Inr (r, s')"
  proof (cases "useCaching s \<and> fo_range opts = None")
    case False
    assume "repoPath \<noteq> Some (normalizePath env fileName)"
    from getLogForFile_uncached [OF False this] show ?thesis by blast
  next
    case True
    assume nt: "repoPath \<noteq> Some (normalizePath env fileName)"
    from True have "useCaching s" "fo_range opts = None" by simp_all
    from getLogForFile_cached [OF this nt] show ?thesis
      by (simp split: option.split)
  qed
  have b: "p = Promise (length (cores s)) \<and>
      promiseValue (core_isTracked_returned env s1 (length (cores s)) False) p = Some None \<and>
      promiseValue (core_isTracked_returned env s1 (length (cores s)) False) emptyPromise = Some None \<and>
      spawned (core_isTracked_returned env s1 (length (cores s)) False) = spawned s1"
    if r: "getLogForFile env s repoPath fileName opts = Inr (Returns p, s1)"
      and n: "length (cores s1) = Suc (length (cores s))"
  proof -
    from getLogForFile_started_core [OF r n] obtain d k options where
      p: "p = Promise (length (cores s))" and
      c: "cores s1 = cores s @
            [\<lparr>core_call = LogCore repoPath fileName options d k, core_status = AwaitTracked\<rparr>]"
      by blast
    have i: "length (cores s) < length (cores s1)" using n by simp
    have st: "core_status (cores s1 ! length (cores s)) = AwaitTracked" by (simp add: c)
    have cl: "core_call (cores s1 ! length (cores s)) = LogCore repoPath fileName options d k"
      by (simp add: c)
    from core_untracked [OF i st cl, of env] p show ?thesis
      by (simp add: promiseValue_def [of _ emptyPromise])
  qed
  show ?thesis using a b getLogForFile_throws [of repoPath env fileName s opts] by blast
qed

theorem C10_getLogForFile_throws_only_for_repo_path_witness:
  "getLogForFile demoEnv demoWorld (Some ''/repo'') ''/repo'' noFileLogOptions
     = Inl (Error ''File name cannot match the repository path; fileName=/repo'') \<and>
   Some ''/repo'' \<noteq> Some (normalizePath demoEnv ''a.txt'') \<and>
   (\<exists>r s'. getLogForFile demoEnv demoWorld (Some ''/repo'') ''a.txt'' noFileLogOptions = Inr (r, s')) \<and>
   getLogForFile demoEnv demoWorld (Some ''/repo'') ''a.txt'' rangeOptions
     = Inr (Returns (Promise 0), demoWorld\<lparr>cores := [rangeCore]\<rparr>) \<and>
   length (cores (demoWorld\<lparr>cores := [rangeCore]\<rparr>)) = Suc (length (cores demoWorld)) \<and>
   promiseValue (core_isTracked_returned demoEnv (demoWorld\<lparr>cores := [rangeCore]\<rparr>) 0 False)
     (Promise 0) = Some None \<and>
   spawned (core_isTracked_returned demoEnv (demoWorld\<lparr>cores := [rangeCore]\<rparr>) 0 False) = []"
proof -
  have np: "Some ''/repo'' \<noteq> Some (normalizePath demoEnv ''a.txt'')"
    and eq: "Some ''/repo'' = Some (normalizePath demoEnv ''/repo'')"
    by (simp_all add: demoEnv_def)
  have rg: "fo_range rangeOptions \<noteq> None" by (simp add: rangeOptions_def)
  have ln: "length (cores demoWorld) = 0" "spawned demoWorld = []" by (simp_all add: demoWorld_def)
  have call: "getLogForFile demoEnv demoWorld (Some ''/repo'') ''a.txt'' rangeOptions
              = Inr (Returns (Promise 0), demoWorld\<lparr>cores := [rangeCore]\<rparr>)"
    using rg ln
    by (simp add: getLogForFile_uncached [OF _ np] getLogForFile_miss_range_eq demo_logDocument
        demo_keys rangeCore_def)
  have n: "length (cores (demoWorld\<lparr>cores := [rangeCore]\<rparr>)) = Suc (length (cores demoWorld))"
    by (simp add: ln)
  note A = C10_getLogForFile_throws_only_for_repo_path [of "Some ''/repo''" demoEnv "''/repo''"
      demoWorld noFileLogOptions]
  note B = C10_getLogForFile_throws_only_for_repo_path [of "Some ''/repo''" demoEnv "''a.txt''"
      demoWorld noFileLogOptions]
  note C = C10_getLogForFile_throws_only_for_repo_path [of "Some ''/repo''" demoEnv "''a.txt''"
      demoWorld rangeOptions "Promise 0" "demoWorld\<lparr>cores := [rangeCore]\<rparr>"]
  from A eq have 1: "getLogForFile demoEnv demoWorld (Some ''/repo'') ''/repo'' noFileLogOptions
     = Inl (Error ''File name cannot match the repository path; fileName=/repo'')"
    by simp
  from B np have 2: "\<exists>r s'. getLogForFile demoEnv demoWorld (Some ''/repo'') ''a.txt''
                        noFileLogOptions = Inr (r, s')"
    by blast
  from C call n have 3:
    "promiseValue (core_isTracked_returned demoEnv (demoWorld\<lparr>cores := [rangeCore]\<rparr>)
        (length (cores demoWorld)) False) (Promise 0) = Some None \<and>
     spawned (core_isTracked_returned demoEnv (demoWorld\<lparr>cores := [rangeCore]\<rparr>)
        (length (cores demoWorld)) False) = spawned (demoWorld\<lparr>cores := [rangeCore]\<rparr>)"
    by blast
  show ?thesis using 1 2 3 np call n by (simp add: ln)
qed

subsection \<open>The deleted-or-missing sha in navigation\<close>

lemma getNextUri_deleted:
  assumes "deletedOrMissingSha env \<noteq> []" "\<not> isUncommittedStaged env (deletedOrMissingSha env)"
  shows "\<exists>r cs. getNextUri env nav repoPath uri (Some (deletedOrMissingSha env)) skip
           = (r, Call_log__file repoPath (GitUri_relativeTo env uri (Some repoPath)) None
                   (noLogFileArgs\<lparr>lf_filters := Some [''A''], lf_limit := skip + 1,
                                   lf_reverse := True, lf_simple := True\<rparr>) # cs)"
proof -
  have b: "\<exists>r cs. bindN (await c x) f = (r, c # cs)"
    for c and x :: "error + 'a" and f :: "'a \<Rightarrow> 'b nav"
    by (cases x) (auto simp: bindN_def await_def split: prod.splits)
  show ?thesis
    using assms by (simp add: getNextUri_def Let_def b)
qed

lemma getNextDiffUris_deleted:
  assumes "deletedOrMissingSha env \<noteq> []" "\<not> isUncommittedStaged env (deletedOrMissingSha env)"
  shows "\<exists>r cs. getNextDiffUris env nav repoPath uri (Some (deletedOrMissingSha env)) skip
           = (r, Call_log__file repoPath (GitUri_relativeTo env uri (Some repoPath)) None
                   (noLogFileArgs\<lparr>lf_filters := Some [''A''], lf_limit := skip + 1,
                                   lf_reverse := True, lf_simple := True\<rparr>) # cs)"
proof -
  from getNextUri_deleted [OF assms, of nav repoPath uri skip] obtain r cs where
    n: "getNextUri env nav repoPath uri (Some (deletedOrMissingSha env)) skip
        = (r, Call_log__file repoPath (GitUri_relativeTo env uri (Some repoPath)) None
                (noLogFileArgs\<lparr>lf_filters := Some [''A''], lf_limit := skip + 1,
                                lf_reverse := True, lf_simple := True\<rparr>) # cs)"
    by blast
  have b: "\<exists>r' cs'. bindN (r, c # cs) f = (r', c # cs')"
    for c and f :: "GitUri option \<Rightarrow> NextDiffUris option nav"
    by (cases r) (auto simp: bindN_def split: prod.splits)
  show ?thesis
    using assms by (simp add: getNextDiffUris_def Let_def n b)
qed

text \<open>
  C3 (amended). \<open>getPreviousUri\<close>, \<open>getPreviousDiffUris\<close> and \<open>getPreviousLineDiffUris\<close>
  called with the deleted-or-missing sha resolve to \<open>undefined\<close> and await nothing.
  \<open>getNextUri\<close> called with that sha looks for the commit that added the file instead: its
  first step is \<open>git log\<close> on the file with no ref and the diff filter \<open>A\<close>, and
  \<open>getNextDiffUris\<close> starts with that call of \<open>getNextUri\<close>. (The sha is a non-empty string
  that is not the staged one.)
\<close>

theorem C3_deleted_sha_in_navigation:
  "getPreviousUri env nav repoPath uri (Some (deletedOrMissingSha env)) skip editorLine firstParent
     = (Inr None, []) \<and>
   getPreviousDiffUris env nav repoPath uri (Some (deletedOrMissingSha env)) skip firstParent
     = (Inr None, []) \<and>
   getPreviousLineDiffUris env nav repoPath uri line (Some (deletedOrMissingSha env)) skip
     = (Inr None, []) \<and>
   (deletedOrMissingSha env \<noteq> [] \<and> \<not> isUncommittedStaged env (deletedOrMissingSha env) \<longrightarrow>
      (\<exists>r cs. getNextUri env nav repoPath uri (Some (deletedOrMissingSha env)) skip
         = (r, Call_log__file repoPath (GitUri_relativeTo env uri (Some repoPath)) None
                 (noLogFileArgs\<lparr>lf_filters := Some [''A''], lf_limit := skip + 1,
                                 lf_reverse := True, lf_simple := True\<rparr>) # cs)) \<and>
      (\<exists>r cs. getNextDiffUris env nav repoPath uri (Some (deletedOrMissingSha env)) skip
         = (r, Call_log__file repoPath (GitUri_relativeTo env uri (Some repoPath)) None
                 (noLogFileArgs\<lparr>lf_filters := Some [''A''], lf_limit := skip + 1,
                                 lf_reverse := True, lf_simple := True\<rparr>) # cs)))"
  using getNextUri_deleted [of env nav repoPath uri skip]
    getNextDiffUris_deleted [of env nav repoPath uri skip]
  by (simp add: getPreviousUri_def getPreviousDiffUris_def getPreviousLineDiffUris_def ret_def)

lemma demo_relativeTo: "GitUri_relativeTo demoEnv ''/repo/a.txt'' (Some ''/repo'') = ''a.txt''"
  by (simp add: GitUri_relativeTo_def demoEnv_def)

theorem C3_deleted_sha_in_navigation_witness:
  "deletedOrMissingSha demoEnv \<noteq> [] \<and> \<not> isUncommittedStaged demoEnv (deletedOrMissingSha demoEnv) \<and>
   getPreviousUri demoEnv demoNav ''/repo'' ''/repo/a.txt'' (Some (deletedOrMissingSha demoEnv)) 0
     None False = (Inr None, []) \<and>
   (\<exists>r cs. getNextDiffUris demoEnv demoNav ''/repo'' ''/repo/a.txt''
              (Some (deletedOrMissingSha demoEnv)) 0
      = (r, Call_log__file ''/repo'' ''a.txt'' None
              \<lparr>lf_filters = Some [''A''], lf_limit = 1, lf_reverse = True, lf_simple = True,
               lf_firstParent = False, lf_startLine = None\<rparr> # cs))"
proof -
  have h: "deletedOrMissingSha demoEnv \<noteq> []"
    "\<not> isUncommittedStaged demoEnv (deletedOrMissingSha demoEnv)"
    by (simp_all add: demoEnv_def)
  from C3_deleted_sha_in_navigation [of demoEnv demoNav "''/repo''" "''/repo/a.txt''" 0 None False 0] h
  show ?thesis by (simp add: demo_relativeTo noLogFileArgs_def)
qed

text \<open>
  C3 as stated fails for \<open>getNextUri\<close>: called with the deleted-or-missing sha it runs
  \<open>git log\<close> and resolves to the uri of the commit git reports.
\<close>

theorem C3_getNextUri_runs_git_for_deleted_sha:
  "getNextUri demoEnv demoNav ''/repo'' ''/repo/a.txt'' (Some (deletedOrMissingSha demoEnv)) 0
     = (Inr (Some \<lparr>uri_fsPath = ''/repo/a.txt'', uri_repoPath = Some ''/repo'',
                    uri_sha = Some ''1234567''\<rparr>),
        [Call_log__file ''/repo'' ''a.txt'' None
           \<lparr>lf_filters = Some [''A''], lf_limit = 1, lf_reverse = True, lf_simple = True,
            lf_firstParent = False, lf_startLine = None\<rparr>])"
proof -
  have h: "deletedOrMissingSha demoEnv \<noteq> []"
    "\<not> isUncommittedStaged demoEnv (deletedOrMissingSha demoEnv)"
    by (simp_all add: demoEnv_def)
  have lf: "log__file demoNav a b c d = Inr (Some ''1234567 A a.txt'')" for a b c d
    by (simp add: demoNav_def)
  have ps: "parseSimple demoNav a b c = (Some ''1234567'', Some ''a.txt'', Some ''A'')" for a b c
    by (simp add: demoNav_def)
  have ff: "GitUri_fromFile demoEnv ''a.txt'' (Some ''/repo'') (Some ''1234567'')
            = \<lparr>uri_fsPath = ''/repo/a.txt'', uri_repoPath = Some ''/repo'', uri_sha = Some ''1234567''\<rparr>"
    by (simp add: GitUri_fromFile_def GitUri_resolve_def demoEnv_def startsWith_def Let_def)
  show ?thesis
    using h
    by (simp add: getNextUri_def Let_def demo_relativeTo lf ps bindN_def await_def ret_def js_or_def
        noLogFileArgs_def ff)
qed

subsection \<open>Paging through a log\<close>

lemma Map_set_fresh: "k \<notin> fst ` set m \<Longrightarrow> Map_set k v m = m @ [(k, v)]"
  unfolding Map_set_def by (induction m) auto

lemma Map_set_keys:
  "map fst (Map_set k v m) = (if k \<in> set (map fst m) then map fst m else map fst m @ [k])"
  unfolding Map_set_def by (rule update_keys)

lemma Map_set_map_of: "map_of (Map_set k v m) = (map_of m)(k \<mapsto> v)"
  unfolding Map_set_def by (rule update_conv')






lemma dataOf_withMore [simp]: "dataOf (withMore d m) = d"
  by (simp add: dataOf_def withMore_def)

lemma withMore_fields [simp]:
  "log_commits (withMore d m) = log_commits d"
  "log_count (withMore d m) = log_count d"
  "log_hasMore (withMore d m) = log_hasMore d"
  "log_more (withMore d m) = m"
  by (simp_all add: withMore_def)

lemma getLog_hasMore:
  assumes "getLog env le repoPath opts = Some l"
  shows "log_more l = (if log_hasMore l then Some (LogMoreFn (dataOf l) opts) else None)"
    and "log_hasMore l \<Longrightarrow> boundLog (LogMoreFn (dataOf l) opts) = l"
  using assms
  by (auto simp: getLog_def Let_def boundLog_def split: sum.splits option.splits if_splits)

lemma getLogMoreFn_limit:
  "getLogMoreFn env le d opts (MoreLimit n)
     = (case getLog env le (log_repoPath d)
               (opts\<lparr>lo_limit := Some n, lo_ref := Some (lastRef (log_commits d) @ ''^'')\<rparr>) of
          None \<Rightarrow> (boundLog (LogMoreFn d opts))\<lparr>log_hasMore := False\<rparr>
        | Some moreLog \<Rightarrow>
            withMore (mergedData env d (MoreLimit n) None (QueryLog (log_repoPath d) opts) moreLog)
              (Some (LogMoreFn
                 (mergedData env d (MoreLimit n) None (QueryLog (log_repoPath d) opts) moreLog)
                 opts)))"
  by (simp add: getLogMoreFn_def moreUntilOf_def moreLimitOf_def moreRef_def truthy_def Let_def
      split: option.split)




lemma shallow_runLog:
  "runLog shallowLogEnv rp None o1 = Inr (Some (pageOf ''c3'' True))"
  "runLog shallowLogEnv rp (Some ''c3^'') o1 = Inr (Some (pageOf ''c2'' False))"
  "runLog shallowLogEnv rp (Some ''c2^'') o1 = Inr None"
  by (simp_all add: shallowLogEnv_def)

lemma deepened_runLog:
  "runLog deepenedLogEnv rp None o1 = Inr (Some (pageOf ''c3'' True))"
  "runLog deepenedLogEnv rp (Some ''c3^'') o1 = Inr (Some (pageOf ''c2'' True))"
  "runLog deepenedLogEnv rp (Some ''c2^'') o1 = Inr (Some (pageOf ''c1'' False))"
  by (simp_all add: deepenedLogEnv_def)


lemma demo_lastRef:
  "lastRef (log_commits firstPage) @ ''^'' = ''c3^''"
  "log_repoPath firstPage = ''/repo''"
  by (simp_all add: firstPage_def pageOf_def lastRef_def commitOf_def)

lemma demo_getLog:
  "getLog demoEnv shallowLogEnv ''/repo'' (pageOptions\<lparr>lo_limit := Some 1, lo_ref := Some ''c3^''\<rparr>)
     = Some (withMore ((pageOf ''c2'' False)
               \<lparr>log_query := Some (QueryLog ''/repo''
                   (pageOptions\<lparr>lo_limit := Some 1, lo_ref := Some ''c3^''\<rparr>))\<rparr>) None)"
  "getLog demoEnv shallowLogEnv ''/repo'' (pageOptions\<lparr>lo_limit := Some 1, lo_ref := Some ''c2^''\<rparr>)
     = None"
  "getLog demoEnv deepenedLogEnv ''/repo'' (pageOptions\<lparr>lo_limit := Some 1, lo_ref := Some ''c3^''\<rparr>)
     = Some (withMore ((pageOf ''c2'' True)
               \<lparr>log_query := Some (QueryLog ''/repo''
                   (pageOptions\<lparr>lo_limit := Some 1, lo_ref := Some ''c3^''\<rparr>))\<rparr>)
               (Some (LogMoreFn ((pageOf ''c2'' True)
                  \<lparr>log_query := Some (QueryLog ''/repo''
                      (pageOptions\<lparr>lo_limit := Some 1, lo_ref := Some ''c3^''\<rparr>))\<rparr>)
                  (pageOptions\<lparr>lo_limit := Some 1, lo_ref := Some ''c3^''\<rparr>))))"
  "getLog demoEnv deepenedLogEnv ''/repo'' (pageOptions\<lparr>lo_limit := Some 1, lo_ref := Some ''c2^''\<rparr>)
     = Some (withMore ((pageOf ''c1'' False)
               \<lparr>log_query := Some (QueryLog ''/repo''
                   (pageOptions\<lparr>lo_limit := Some 1, lo_ref := Some ''c2^''\<rparr>))\<rparr>) None)"
  "getLog demoEnv deepenedLogEnv ''/repo'' pageOptions
     = Some (withMore firstPage (Some (LogMoreFn firstPage pageOptions)))"
  by (simp_all add: getLog_def Let_def shallow_runLog deepened_runLog pageOptions_def)
     (simp_all add: pageOf_def firstPage_def pageOptions_def)

lemma secondPage_more:
  "getLogMoreFn demoEnv shallowLogEnv firstPage pageOptions (MoreLimit 1)
     = withMore secondPage (Some (LogMoreFn secondPage pageOptions))"
  unfolding secondPage_def
  by (simp only: getLogMoreFn_limit demo_lastRef demo_getLog option.case dataOf_withMore)

lemma secondPage_eq:
  "secondPage =
     \<lparr>log_repoPath = ''/repo'',
      log_authors = [(''alice'', Some \<lparr>author_name = ''alice'', lineCount = 0\<rparr>)],
      log_commits = [(''c3'', commitOf ''c3''), (''c2'', commitOf ''c2'')],
      log_sha = None, log_range = None, log_count = 2, log_limit = Some 2,
      log_hasMore = False, log_query = Some (QueryLog ''/repo'' pageOptions)\<rparr>"
proof -
  have "secondPage = mergedData demoEnv firstPage (MoreLimit 1) None (QueryLog ''/repo'' pageOptions)
          (withMore ((pageOf ''c2'' False)
               \<lparr>log_query := Some (QueryLog ''/repo''
                   (pageOptions\<lparr>lo_limit := Some 1, lo_ref := Some ''c3^''\<rparr>))\<rparr>) None)"
    unfolding secondPage_def
    by (simp only: getLogMoreFn_limit demo_lastRef demo_getLog option.case dataOf_withMore)
  then show ?thesis
    by (simp add: mergedData_def moreUntilOf_def moreLimitOf_def firstPage_def pageOf_def
          Map_new_def Map_set_def withMore_def numeral_2_eq_2)
qed

lemma secondPage_lastRef:
  "lastRef (log_commits secondPage) @ ''^'' = ''c2^''"
  "log_repoPath secondPage = ''/repo''"
  "log_count secondPage = 2"
  "\<not> log_hasMore secondPage"
  by (simp_all add: secondPage_eq lastRef_def commitOf_def)




subsection \<open>The continuation of a log without more\<close>

text \<open>
  C5 (amended). When the query made by a \<open>more\<close> continuation finds nothing (it resolves
  to \<open>undefined\<close>), the continuation returns the log it is bound to with \<open>hasMore\<close> false and
  the same commits and count, whatever \<open>hasMore\<close> was before. A log that \<open>getLog\<close> returns
  with \<open>hasMore\<close> false has no \<open>more\<close> continuation at all.
\<close>

theorem C5_more_finding_nothing:
  "(moreUntilOf arg = None \<and>
    getLog env le (log_repoPath d)
      (opts\<lparr>lo_limit := Some (moreLimitOf env arg),
            lo_ref := Some (lastRef (log_commits d) @ ''^'')\<rparr>) = None \<longrightarrow>
      getLogMoreFn env le d opts arg = (boundLog (LogMoreFn d opts))\<lparr>log_hasMore := False\<rparr> \<and>
      \<not> log_hasMore (getLogMoreFn env le d opts arg) \<and>
      log_count (getLogMoreFn env le d opts arg) = log_count d \<and>
      log_commits (getLogMoreFn env le d opts arg) = log_commits d) \<and>
   (moreUntilOf arg = None \<and>
    fileLog (Some (log_repoPath d)) fileName
      (fopts\<lparr>fo_limit := Some (moreLimitOf env arg),
             fo_ref := Some (lastRef (log_commits d) @ ''^'')\<rparr>) = Inr None \<longrightarrow>
      getLogForFileMoreFn env fileLog d fileName fopts arg
        = Inr ((boundLog (LogForFileMoreFn d fileName fopts))\<lparr>log_hasMore := False\<rparr>) \<and>
      log_count ((boundLog (LogForFileMoreFn d fileName fopts))\<lparr>log_hasMore := False\<rparr>)
        = log_count d \<and>
      log_commits ((boundLog (LogForFileMoreFn d fileName fopts))\<lparr>log_hasMore := False\<rparr>)
        = log_commits d) \<and>
   (getLog env le repoPath opts = Some l \<and> \<not> log_hasMore l \<longrightarrow> log_more l = None)"
proof -
  have a: "getLogMoreFn env le d opts arg = (boundLog (LogMoreFn d opts))\<lparr>log_hasMore := False\<rparr>"
    if "moreUntilOf arg = None"
      "getLog env le (log_repoPath d)
         (opts\<lparr>lo_limit := Some (moreLimitOf env arg),
               lo_ref := Some (lastRef (log_commits d) @ ''^'')\<rparr>) = None"
    using that by (simp add: getLogMoreFn_def moreRef_def truthy_def Let_def)
  have b: "getLogForFileMoreFn env fileLog d fileName fopts arg
        = Inr ((boundLog (LogForFileMoreFn d fileName fopts))\<lparr>log_hasMore := False\<rparr>)"
    if "moreUntilOf arg = None"
      "fileLog (Some (log_repoPath d)) fileName
         (fopts\<lparr>fo_limit := Some (moreLimitOf env arg),
                fo_ref := Some (lastRef (log_commits d) @ ''^'')\<rparr>) = Inr None"
    using that by (simp add: getLogForFileMoreFn_def moreRef_def truthy_def Let_def)
  have c: "log_count ((boundLog f)\<lparr>log_hasMore := False\<rparr>) = log_count (dataOf (boundLog f))"
    "log_commits ((boundLog f)\<lparr>log_hasMore := False\<rparr>) = log_commits (dataOf (boundLog f))"
    "\<not> log_hasMore ((boundLog f)\<lparr>log_hasMore := False\<rparr>)" for f
    by (simp_all add: dataOf_def)
  have d: "dataOf (boundLog (LogMoreFn d opts)) = d"
    "dataOf (boundLog (LogForFileMoreFn d fileName fopts)) = d"
    by (simp_all add: boundLog_def)
  have e: "log_more l = None" if "getLog env le repoPath opts = Some l" "\<not> log_hasMore l"
    using getLog_hasMore(1) [OF that(1)] that(2) by simp
  show ?thesis
    using a b e c [of "LogMoreFn d opts"] c [of "LogForFileMoreFn d fileName fopts"] d
    by (simp del: dataOf_withMore)
qed

theorem C5_more_finding_nothing_witness:
  "moreUntilOf (MoreLimit 1) = None \<and>
   \<not> log_hasMore secondPage \<and> log_count secondPage = 2 \<and>
   getLog demoEnv shallowLogEnv ''/repo''
     (pageOptions\<lparr>lo_limit := Some 1, lo_ref := Some ''c2^''\<rparr>) = None \<and>
   \<not> log_hasMore (getLogMoreFn demoEnv shallowLogEnv secondPage pageOptions (MoreLimit 1)) \<and>
   log_count (getLogMoreFn demoEnv shallowLogEnv secondPage pageOptions (MoreLimit 1)) = 2"
proof -
  have u: "moreUntilOf (MoreLimit 1) = None" by (simp add: moreUntilOf_def)
  have ml: "moreLimitOf demoEnv (MoreLimit 1) = 1" by (simp add: moreLimitOf_def)
  have q: "getLog demoEnv shallowLogEnv (log_repoPath secondPage)
      (pageOptions\<lparr>lo_limit := Some (moreLimitOf demoEnv (MoreLimit 1)),
                    lo_ref := Some (lastRef (log_commits secondPage) @ ''^'')\<rparr>) = None"
    by (simp only: ml secondPage_lastRef demo_getLog)
  from C5_more_finding_nothing [of "MoreLimit 1" demoEnv shallowLogEnv secondPage pageOptions]
    u q
  have "\<not> log_hasMore (getLogMoreFn demoEnv shallowLogEnv secondPage pageOptions (MoreLimit 1)) \<and>
      log_count (getLogMoreFn demoEnv shallowLogEnv secondPage pageOptions (MoreLimit 1))
        = log_count secondPage"
    by blast
  then show ?thesis
    using u demo_getLog(2) by (simp add: secondPage_lastRef)
qed

text \<open>
  C5 as stated fails: the continuation does not look at \<open>hasMore\<close>. The log \<open>secondPage\<close> has
  \<open>hasMore\<close> false and two commits, and carries a \<open>more\<close> continuation (it was produced by one);
  once the repository knows the older commit \<open>c1\<close>, that continuation returns a log with
  three commits.
\<close>

theorem C5_more_merges_despite_hasMore_false:
  "log_more (getLogMoreFn demoEnv shallowLogEnv firstPage pageOptions (MoreLimit 1))
     = Some (LogMoreFn secondPage pageOptions) \<and>
   \<not> log_hasMore (getLogMoreFn demoEnv shallowLogEnv firstPage pageOptions (MoreLimit 1)) \<and>
   log_count (getLogMoreFn demoEnv shallowLogEnv firstPage pageOptions (MoreLimit 1)) = 2 \<and>
   log_count (getLogMoreFn demoEnv deepenedLogEnv secondPage pageOptions (MoreLimit 1)) = 3 \<and>
   map fst (log_commits (getLogMoreFn demoEnv deepenedLogEnv secondPage pageOptions (MoreLimit 1)))
     = [''c3'', ''c2'', ''c1'']"
proof -
  let ?m = "withMore ((pageOf ''c1'' False)
               \<lparr>log_query := Some (QueryLog ''/repo''
                   (pageOptions\<lparr>lo_limit := Some 1, lo_ref := Some ''c2^''\<rparr>))\<rparr>) None"
  let ?md = "mergedData demoEnv secondPage (MoreLimit 1) None (QueryLog ''/repo'' pageOptions) ?m"
  have r2: "getLogMoreFn demoEnv deepenedLogEnv secondPage pageOptions (MoreLimit 1)
            = withMore ?md (Some (LogMoreFn ?md pageOptions))"
    by (simp only: getLogMoreFn_limit secondPage_lastRef demo_getLog option.case)
  have m: "log_count ?md = 3" "map fst (log_commits ?md) = [''c3'', ''c2'', ''c1'']"
    by (simp_all add: mergedData_def secondPage_eq pageOf_def Map_new_def Map_set_def
        numeral_3_eq_3)
  have a: "log_more (withMore secondPage (Some (LogMoreFn secondPage pageOptions)))
           = Some (LogMoreFn secondPage pageOptions)"
    "\<not> log_hasMore (withMore secondPage (Some (LogMoreFn secondPage pageOptions)))"
    "log_count (withMore secondPage (Some (LogMoreFn secondPage pageOptions))) = 2"
    by (simp_all add: secondPage_lastRef)
  have b: "log_count (withMore ?md (Some (LogMoreFn ?md pageOptions))) = 3"
    "map fst (log_commits (withMore ?md (Some (LogMoreFn ?md pageOptions)))) = [''c3'', ''c2'', ''c1'']"
    unfolding withMore_fields by (rule m)+
  show ?thesis
    unfolding secondPage_more r2 by (intro conjI a b)
qed

subsection \<open>Author aggregation of a sliced blame\<close>

lemma foldl_Map_set_fresh:
  "distinct (map fst es) \<Longrightarrow> set (map fst es) \<inter> set (map fst m) = {} \<Longrightarrow>
   foldl (\<lambda>m (k, v). Map_set k v m) m es = m @ es"
proof (induction es arbitrary: m)
  case Nil
  show ?case by simp
next
  case (Cons e es)
  obtain k v where e: "e = (k, v)" by (cases e)
  from Cons.prems e have "k \<notin> fst ` set m" by auto
  then have s: "Map_set k v m = m @ [(k, v)]" by (rule Map_set_fresh)
  from Cons.prems e have "distinct (map fst es)"
    "set (map fst es) \<inter> set (map fst (m @ [(k, v)])) = {}"
    by auto
  from Cons.IH [OF this] show ?case by (simp add: e s)
qed

lemma Map_new_distinct: "distinct (map fst es) \<Longrightarrow> Map_new es = es"
  unfolding Map_new_def using foldl_Map_set_fresh [of es "[]"] by simp

lemma Map_set_distinct: "distinct (map fst m) \<Longrightarrow> distinct (map fst (Map_set k v m))"
  unfolding Map_set_def by (rule distinct_update)

lemma authorTotal_Map_set:
  assumes "distinct (map fst m)"
  shows "authorTotal (Map_set k v m) + (case map_of m k of None \<Rightarrow> 0 | Some a \<Rightarrow> lineCount a)
         = authorTotal m + lineCount v"
  using assms unfolding Map_set_def authorTotal_def
proof (induction m)
  case Nil
  show ?case by simp
next
  case (Cons e m)
  obtain k' a' where e: "e = (k', a')" by (cases e)
  show ?case
  proof (cases "k' = k")
    case True
    then show ?thesis by (simp add: e)
  next
    case False
    from Cons.prems have "distinct (map fst m)" by simp
    from Cons.IH [OF this] False show ?thesis by (simp add: e)
  qed
qed

text \<open>The loop keeps the author keys distinct and adds to the total the lines it keeps.\<close>

lemma rangeStep_total:
  assumes "distinct (map fst (fst acc))"
  shows "distinct (map fst (fst (rangeStep shas startL endL acc c))) \<and>
         authorTotal (fst (rangeStep shas startL endL acc c))
           = authorTotal (fst acc)
             + (if bc_sha c \<in> set shas
                then length (filter (\<lambda>l. l_line l \<ge> startL \<and> l_line l \<le> endL) (bc_lines c))
                else 0)"
proof (cases acc)
  case (Pair authors commits)
  with assms have d: "distinct (map fst authors)" by simp
  show ?thesis
  proof (cases "bc_sha c \<in> set shas")
    case False
    then show ?thesis using d by (simp add: rangeStep_def Pair)
  next
    case True
    let ?n = "length (filter (\<lambda>l. l_line l \<ge> startL \<and> l_line l \<le> endL) (bc_lines c))"
    show ?thesis
    proof (cases "map_of authors (bc_author c)")
      case None
      from authorTotal_Map_set [OF d, of "bc_author c"
          "\<lparr>author_name = bc_author c, lineCount = 0 + ?n\<rparr>"] None
      show ?thesis using True d by (simp add: rangeStep_def Pair Let_def Map_set_distinct)
    next
      case (Some a)
      from authorTotal_Map_set [OF d, of "bc_author c" "a\<lparr>lineCount := lineCount a + ?n\<rparr>"] Some
      show ?thesis using True d by (simp add: rangeStep_def Pair Let_def Map_set_distinct)
    qed
  qed
qed

lemma rangeLoop_total:
  assumes "distinct (map fst (fst acc))"
  shows "distinct (map fst (fst (foldl (rangeStep shas startL endL) acc cs))) \<and>
         authorTotal (fst (foldl (rangeStep shas startL endL) acc cs))
           = authorTotal (fst acc)
             + sum_list (map (\<lambda>c. if bc_sha c \<in> set shas
                                   then length (filter (\<lambda>l. l_line l \<ge> startL \<and> l_line l \<le> endL)
                                                  (bc_lines c))
                                   else 0) cs)"
  using assms
proof (induction cs arbitrary: acc)
  case Nil
  then show ?case by simp
next
  case (Cons c cs)
  from rangeStep_total [OF Cons.prems, of shas startL endL c]
  have d: "distinct (map fst (fst (rangeStep shas startL endL acc c)))"
    and t: "authorTotal (fst (rangeStep shas startL endL acc c))
           = authorTotal (fst acc)
             + (if bc_sha c \<in> set shas
                then length (filter (\<lambda>l. l_line l \<ge> startL \<and> l_line l \<le> endL) (bc_lines c))
                else 0)"
    by simp_all
  from Cons.IH [OF d] t show ?case by simp
qed

text \<open>With lines numbered from 1, the slice holds exactly the records whose number is in range.\<close>

lemma slice_numbered:
  assumes "map l_line xs = [1 ..< Suc (length xs)]"
  shows "filter (\<lambda>l. l_line l \<ge> Suc a \<and> l_line l \<le> Suc b) xs = drop a (take (Suc b) xs)"
  using assms
proof (induction xs rule: rev_induct)
  case Nil
  show ?case by simp
next
  case (snoc x xs)
  from snoc.prems have n: "map l_line xs = [1 ..< Suc (length xs)]" and x: "l_line x = Suc (length xs)"
    by simp_all
  show ?case
    using snoc.IH [OF n] x by (auto simp: not_le not_less Suc_diff_le)
qed

lemma authorTotal_sort:
  "authorTotal (sort_key f as) = authorTotal as"
proof -
  have "mset (map (\<lambda>(k, a). lineCount a) (sort_key f as)) = mset (map (\<lambda>(k, a). lineCount a) as)"
    by (metis mset_map mset_sort)
  then show ?thesis unfolding authorTotal_def by (metis sum_mset_sum_list)
qed

lemma distinct_keys_sort:
  "distinct (map fst (sort_key f as)) = distinct (map fst as)"
proof -
  have "mset (map fst (sort_key f as)) = mset (map fst as)" by (metis mset_map mset_sort)
  then show ?thesis by (rule mset_eq_imp_distinct_iff)
qed

lemma length_concat_filter:
  "length (filter P (concat xss)) = sum_list (map (\<lambda>xs. length (filter P xs)) xss)"
  by (induction xss) simp_all

lemma sliced_total:
  assumes inv: "blameInvariant blame"
  shows "sum_list (map (\<lambda>c. if bc_sha c \<in> set (map l_sha (drop a (take (Suc b) (blame_lines blame))))
                           then length (filter (\<lambda>l. l_line l \<ge> Suc a \<and> l_line l \<le> Suc b) (bc_lines c))
                           else 0) (map snd (blame_commits blame)))
         = length (drop a (take (Suc b) (blame_lines blame)))"
proof -
  let ?P = "\<lambda>l. l_line l \<ge> Suc a \<and> l_line l \<le> Suc b"
  let ?slice = "drop a (take (Suc b) (blame_lines blame))"
  from inv have num: "map l_line (blame_lines blame) = [1 ..< Suc (length (blame_lines blame))]"
    and part: "mset (concat (map (\<lambda>(k, c). bc_lines c) (blame_commits blame)))
               = mset (blame_lines blame)"
    and own: "\<forall>(k, c) \<in> set (blame_commits blame). \<forall>l \<in> set (bc_lines c). l_sha l = bc_sha c"
    by (simp_all add: blameInvariant_def)
  have sl: "filter ?P (blame_lines blame) = ?slice" using num by (rule slice_numbered)
  have skip: "(if bc_sha c \<in> set (map l_sha ?slice) then length (filter ?P (bc_lines c)) else 0)
              = length (filter ?P (bc_lines c))"
    if c: "(k, c) \<in> set (blame_commits blame)" for k c
  proof (cases "filter ?P (bc_lines c)")
    case Nil
    then show ?thesis by simp
  next
    case (Cons l ls)
    then have "l \<in> set (filter ?P (bc_lines c))" by simp
    then have lc: "l \<in> set (bc_lines c)" and lp: "?P l" by simp_all
    from lc c have "l \<in># mset (concat (map (\<lambda>(k, c). bc_lines c) (blame_commits blame)))"
      by force
    with part have "l \<in> set (blame_lines blame)" by simp
    with lp have "l \<in> set (filter ?P (blame_lines blame))" by simp
    with sl have "l \<in> set ?slice" by simp
    moreover from own c lc have "l_sha l = bc_sha c" by blast
    ultimately have "bc_sha c \<in> set (map l_sha ?slice)" by force
    then show ?thesis by simp
  qed
  have "map (\<lambda>c. if bc_sha c \<in> set (map l_sha ?slice)
                  then length (filter ?P (bc_lines c)) else 0)
          (map snd (blame_commits blame))
        = map (\<lambda>c. length (filter ?P (bc_lines c))) (map snd (blame_commits blame))"
  proof (rule map_cong [OF refl])
    fix c
    assume "c \<in> set (map snd (blame_commits blame))"
    then obtain k where "(k, c) \<in> set (blame_commits blame)" by auto
    then show "(if bc_sha c \<in> set (map l_sha ?slice) then length (filter ?P (bc_lines c)) else 0)
               = length (filter ?P (bc_lines c))"
      by (rule skip)
  qed
  then have "sum_list (map (\<lambda>c. if bc_sha c \<in> set (map l_sha ?slice)
                           then length (filter ?P (bc_lines c)) else 0)
                   (map snd (blame_commits blame)))
        = sum_list (map (\<lambda>c. length (filter ?P (bc_lines c))) (map snd (blame_commits blame)))"
    by (rule arg_cong)
  also have "\<dots> = length (filter ?P (concat (map (\<lambda>(k, c). bc_lines c) (blame_commits blame))))"
    by (simp add: length_concat_filter comp_def case_prod_unfold)
  also have "\<dots> = size (filter_mset ?P (mset (concat (map (\<lambda>(k, c). bc_lines c) (blame_commits blame)))))"
    by (simp flip: mset_filter)
  also have "\<dots> = length (filter ?P (blame_lines blame))"
    unfolding part by (simp flip: mset_filter)
  finally show ?thesis using sl by simp
qed

lemma getBlameForRangeSync_sliced:
  assumes "length (blame_lines blame) \<noteq> 0"
    "\<not> (startLine rg = 0 \<and> endLine rg = length (blame_lines blame) - 1)"
  shows "blame_lines (getBlameForRangeSync blame uri rg)
           = drop (startLine rg) (take (Suc (endLine rg)) (blame_lines blame))"
    and "blame_authors (getBlameForRangeSync blame uri rg)
           = Map_new (sort_key (\<lambda>(k, a). - int (lineCount a))
               (fst (foldl (rangeStep
                       (map l_sha (drop (startLine rg) (take (Suc (endLine rg)) (blame_lines blame))))
                       (Suc (startLine rg)) (Suc (endLine rg)))
                     ([], []) (map snd (blame_commits blame)))))"
  using assms by (auto simp: getBlameForRangeSync_def Let_def case_prod_unfold)

text \<open>
  C8 (amended). For a blame that satisfies the invariant: when the blame has lines and the
  range does not span all of them, the result of \<open>getBlameForRangeSync\<close> holds the line
  records of the range, and the sum of its authors' line counts, which are recomputed, is
  the number of those records, whatever the authors of the blame passed in. When the blame
  has no lines or the range spans all of them, the blame is passed on with its authors and
  line records as they are, so the sum is that of the blame passed in.
\<close>

theorem C8_sliced_blame_author_total:
  assumes "blameInvariant blame"
  shows "(length (blame_lines blame) \<noteq> 0 \<and>
          \<not> (startLine rg = 0 \<and> endLine rg = length (blame_lines blame) - 1) \<longrightarrow>
            blame_lines (getBlameForRangeSync blame uri rg)
              = drop (startLine rg) (take (endLine rg + 1) (blame_lines blame)) \<and>
            authorTotal (blame_authors (getBlameForRangeSync blame uri rg))
              = length (blame_lines (getBlameForRangeSync blame uri rg))) \<and>
         (length (blame_lines blame) = 0 \<or>
          (startLine rg = 0 \<and> endLine rg = length (blame_lines blame) - 1) \<longrightarrow>
            blame_authors (getBlameForRangeSync blame uri rg) = blame_authors blame \<and>
            blame_lines (getBlameForRangeSync blame uri rg) = blame_lines blame)"
proof (intro conjI impI)
  assume "length (blame_lines blame) = 0 \<or>
          (startLine rg = 0 \<and> endLine rg = length (blame_lines blame) - 1)"
  then have g: "getBlameForRangeSync blame uri rg = withAllLines blame"
    by (auto simp: getBlameForRangeSync_def)
  show "blame_authors (getBlameForRangeSync blame uri rg) = blame_authors blame"
    by (simp add: g withAllLines_def)
  show "blame_lines (getBlameForRangeSync blame uri rg) = blame_lines blame"
    by (simp add: g withAllLines_def)
next
  assume "length (blame_lines blame) \<noteq> 0 \<and>
          \<not> (startLine rg = 0 \<and> endLine rg = length (blame_lines blame) - 1)"
  then have ne: "length (blame_lines blame) \<noteq> 0"
    and nw: "\<not> (startLine rg = 0 \<and> endLine rg = length (blame_lines blame) - 1)"
    by simp_all
  show "blame_lines (getBlameForRangeSync blame uri rg)
        = drop (startLine rg) (take (endLine rg + 1) (blame_lines blame))"
    unfolding getBlameForRangeSync_sliced(1) [OF ne nw] by simp
  let ?shas = "map l_sha (drop (startLine rg) (take (Suc (endLine rg)) (blame_lines blame)))"
  let ?acc = "foldl (rangeStep ?shas (Suc (startLine rg)) (Suc (endLine rg))) ([], [])
                (map snd (blame_commits blame))"
  have "distinct (map fst (fst (([], []) :: (string \<times> GitAuthor) list \<times> (string \<times> GitBlameCommit) list)))"
    by simp
  from rangeLoop_total [OF this, of ?shas "Suc (startLine rg)" "Suc (endLine rg)"
      "map snd (blame_commits blame)"]
  have d: "distinct (map fst (fst ?acc))"
    and t: "authorTotal (fst ?acc)
            = sum_list (map (\<lambda>c. if bc_sha c \<in> set ?shas
                                  then length (filter (\<lambda>l. l_line l \<ge> Suc (startLine rg) \<and>
                                                           l_line l \<le> Suc (endLine rg)) (bc_lines c))
                                  else 0) (map snd (blame_commits blame)))"
    by (simp_all add: authorTotal_def)
  have "authorTotal (blame_authors (getBlameForRangeSync blame uri rg))
        = authorTotal (sort_key (\<lambda>(k, a). - int (lineCount a)) (fst ?acc))"
    unfolding getBlameForRangeSync_sliced(2) [OF ne nw]
    using d by (simp add: Map_new_distinct distinct_keys_sort)
  also have "\<dots> = authorTotal (fst ?acc)" by (rule authorTotal_sort)
  also have "\<dots> = length (drop (startLine rg) (take (Suc (endLine rg)) (blame_lines blame)))"
    unfolding t using assms(1) by (rule sliced_total)
  finally show "authorTotal (blame_authors (getBlameForRangeSync blame uri rg))
                = length (blame_lines (getBlameForRangeSync blame uri rg))"
    unfolding getBlameForRangeSync_sliced(1) [OF ne nw] .
qed

lemma demoBlame_invariant: "blameInvariant demoBlame"
  by (simp add: blameInvariant_def demoBlame_def upt_rec)

lemma demoBlame_lines: "length (blame_lines demoBlame) = 3"
  by (simp add: demoBlame_def)

theorem C8_sliced_blame_author_total_witness:
  "blameInvariant demoBlame \<and>
   length (blame_lines demoBlame) = 3 \<and>
   length (blame_lines (getBlameForRangeSync demoBlame demoUri \<lparr>startLine = 1, endLine = 2\<rparr>)) = 2 \<and>
   authorTotal (blame_authors (getBlameForRangeSync demoBlame demoUri \<lparr>startLine = 1, endLine = 2\<rparr>)) = 2 \<and>
   blame_authors (getBlameForRangeSync demoBlame demoUri \<lparr>startLine = 0, endLine = 2\<rparr>)
     = blame_authors demoBlame \<and>
   blame_lines (getBlameForRangeSync demoBlame demoUri \<lparr>startLine = 0, endLine = 2\<rparr>)
     = blame_lines demoBlame"
proof -
  have n: "length (drop 1 (take (2 + 1) (blame_lines demoBlame))) = 2"
    by (simp add: demoBlame_def)
  from C8_sliced_blame_author_total [OF demoBlame_invariant,
      of "\<lparr>startLine = 1, endLine = 2\<rparr>" demoUri]
  have s: "blame_lines (getBlameForRangeSync demoBlame demoUri \<lparr>startLine = 1, endLine = 2\<rparr>)
             = drop 1 (take (2 + 1) (blame_lines demoBlame)) \<and>
           authorTotal (blame_authors (getBlameForRangeSync demoBlame demoUri \<lparr>startLine = 1, endLine = 2\<rparr>))
             = length (blame_lines (getBlameForRangeSync demoBlame demoUri \<lparr>startLine = 1, endLine = 2\<rparr>))"
    by (simp add: demoBlame_lines)
  from C8_sliced_blame_author_total [OF demoBlame_invariant,
      of "\<lparr>startLine = 0, endLine = 2\<rparr>" demoUri]
  have w: "blame_authors (getBlameForRangeSync demoBlame demoUri \<lparr>startLine = 0, endLine = 2\<rparr>)
             = blame_authors demoBlame \<and>
           blame_lines (getBlameForRangeSync demoBlame demoUri \<lparr>startLine = 0, endLine = 2\<rparr>)
             = blame_lines demoBlame"
    by (simp add: demoBlame_lines)
  from s n have "length (blame_lines (getBlameForRangeSync demoBlame demoUri \<lparr>startLine = 1, endLine = 2\<rparr>)) = 2 \<and>
     authorTotal (blame_authors (getBlameForRangeSync demoBlame demoUri \<lparr>startLine = 1, endLine = 2\<rparr>)) = 2"
    by simp
  with w demoBlame_invariant demoBlame_lines show ?thesis by blast
qed

text \<open>
  C8 as stated fails when the range spans all lines: the blame below satisfies the invariant,
  its only author entry counts 7 lines, and the result for the range of its three lines
  still has that entry, while it has three line records.
\<close>

theorem C8_whole_range_keeps_authors_passed_in:
  "blameInvariant staleBlame \<and>
   blame_authors (getBlameForRangeSync staleBlame demoUri \<lparr>startLine = 0, endLine = 2\<rparr>)
     = [(''alice'', \<lparr>author_name = ''alice'', lineCount = 7\<rparr>)] \<and>
   authorTotal (blame_authors (getBlameForRangeSync staleBlame demoUri \<lparr>startLine = 0, endLine = 2\<rparr>))
     = 7 \<and>
   length (blame_lines (getBlameForRangeSync staleBlame demoUri \<lparr>startLine = 0, endLine = 2\<rparr>)) = 3"
proof -
  have i: "blameInvariant staleBlame"
    by (simp add: blameInvariant_def staleBlame_def demoBlame_def upt_rec)
  have g: "getBlameForRangeSync staleBlame demoUri \<lparr>startLine = 0, endLine = 2\<rparr>
           = withAllLines staleBlame"
    by (simp add: getBlameForRangeSync_def staleBlame_def demoBlame_def)
  show ?thesis
    unfolding g using i
    by (simp add: withAllLines_def staleBlame_def demoBlame_def authorTotal_def)
qed

subsection \<open>Search queries\<close>

lemma searchOperators_shape:
  "op \<in> set searchOperators \<Longrightarrow> CHR '':'' \<in> set op \<and> (\<forall>c \<in> set op. \<not> isWhitespace c) \<and> op \<noteq> []"
  unfolding searchOperators_def isWhitespace_def by (elim set_ConsD [THEN disjE]) simp_all

lemma operatorAt_Some:
  assumes "operatorAt s = Some op"
  shows "op \<in> set searchOperators \<and> (\<exists>t. s = op @ t)"
proof -
  from assms have m: "op \<in> set searchOperators" and p: "startsWith s op"
    unfolding operatorAt_def by (auto simp: find_Some_iff)
  from p have "s = op @ drop (length op) s"
    unfolding startsWith_def by (metis append_take_drop_id)
  with m show ?thesis by blast
qed

lemma operatorAt_operator:
  "op \<in> set searchOperators \<Longrightarrow> operatorAt (op @ t) = Some op"
  unfolding searchOperators_def
  by (elim set_ConsD [THEN disjE]) (simp_all add: operatorAt_def searchOperators_def startsWith_def)

text \<open>No operator begins inside a word without colon that ends the query or is followed by whitespace.\<close>

lemma operatorAt_word:
  assumes w: "CHR '':'' \<notin> set w" and t: "t = [] \<or> isWhitespace (hd t)"
  shows "operatorAt (w @ t) = None"
proof (cases "operatorAt (w @ t)")
  case None
  then show ?thesis .
next
  case (Some op)
  from operatorAt_Some [OF Some] obtain u where m: "op \<in> set searchOperators" and e: "w @ t = op @ u"
    by blast
  from searchOperators_shape [OF m]
  have c: "CHR '':'' \<in> set op" and s: "\<forall>c \<in> set op. \<not> isWhitespace c" by simp_all
  from e obtain us where "(w = op @ us \<and> us @ t = u) \<or> (w @ us = op \<and> t = us @ u)"
    by (auto simp: append_eq_append_conv2)
  then show ?thesis
  proof
    assume "w = op @ us \<and> us @ t = u"
    with c w show ?thesis by auto
  next
    assume a: "w @ us = op \<and> t = us @ u"
    show ?thesis
    proof (cases us)
      case Nil
      with a c w show ?thesis by auto
    next
      case (Cons x xs)
      with a t have "isWhitespace x" by auto
      moreover from a Cons have "x \<in> set op" by auto
      ultimately show ?thesis using s by blast
    qed
  qed
qed

lemma afterValue_space: "afterValue t \<Longrightarrow> t = [] \<or> isWhitespace (hd t)"
  by (auto simp: afterValue_def isWhitespace_def)

lemma stopsAt_afterValue: "afterValue t \<Longrightarrow> stopsAt t"
  by (auto simp: afterValue_def stopsAt_def isWhitespace_def operatorAt_operator)

lemma lookahead_word:
  assumes "\<forall>c \<in> set w. \<not> isWhitespace c \<and> c \<noteq> CHR '':''" and "afterValue t"
  shows "lookahead (w @ t) = Some w"
  using assms(1)
proof (induction w)
  case Nil
  from stopsAt_afterValue [OF assms(2)] show ?case by (cases t) simp_all
next
  case (Cons c w)
  from Cons.prems have "CHR '':'' \<notin> set (c # w)" by auto
  from operatorAt_word [OF this afterValue_space [OF assms(2)]]
  have o: "operatorAt (c # w @ t) = None" by simp
  from Cons.prems have ws: "\<not> isWhitespace c" by simp
  then have lt: "\<not> isLineTerminator c" by (auto simp: isWhitespace_def isLineTerminator_def)
  from o ws have "\<not> stopsAt (c # w @ t)" by (simp add: stopsAt_def)
  with lt Cons show ?case by simp
qed

lemma operationAt_term:
  assumes op: "op \<in> set searchOperators" and v: "plainWord v" and t: "afterValue t"
  shows "operationAt (op @ v @ t) = Some (op, v, v @ t)"
proof -
  from v obtain c r where vc: "v = c # r" and ws: "\<not> isWhitespace c"
    by (cases v) (auto simp: plainWord_def)
  from v have "\<forall>c \<in> set v. \<not> isWhitespace c \<and> c \<noteq> CHR '':''" by (simp add: plainWord_def)
  from lookahead_word [OF this t] have l: "lookahead (v @ t) = Some v" .
  show ?thesis
    unfolding operationAt_def operatorAt_operator [OF op]
    using l ws by (simp add: vc)
qed

lemma searchOperationRegex_exec_term:
  assumes op: "op \<in> set searchOperators" and v: "plainWord v" and t: "afterValue t"
  shows "searchOperationRegex_exec (op @ v @ t) = Some (op, v, v @ t)"
proof -
  from searchOperators_shape [OF op] obtain c r where "op = c # r" by (cases op) auto
  with operationAt_term [OF assms] show ?thesis by simp
qed

lemma searchOperationRegex_exec_word:
  assumes "CHR '':'' \<notin> set w" and "t = [] \<or> isWhitespace (hd t)"
  shows "searchOperationRegex_exec (w @ t) = searchOperationRegex_exec t"
  using assms(1)
proof (induction w)
  case Nil
  show ?case by simp
next
  case (Cons c w)
  from operatorAt_word [OF Cons.prems assms(2)] have "operationAt (c # w @ t) = None"
    by (simp add: operationAt_def)
  with Cons show ?case by simp
qed

lemma searchOperationRegex_exec_space:
  "searchOperationRegex_exec (CHR '' '' # t) = searchOperationRegex_exec t"
proof -
  have "operatorAt (CHR '' '' # t) = None"
    using operatorAt_word [of "[]" "CHR '' '' # t"] by (simp add: isWhitespace_def)
  then show ?thesis by (simp add: operationAt_def)
qed

text \<open>The loop depends on the text only through the search of the next operation.\<close>

lemma operationsLoop_cong:
  "searchOperationRegex_exec s = searchOperationRegex_exec s' \<Longrightarrow>
   operationsLoop s operations = operationsLoop s' operations"
  by (subst operationsLoop.simps, subst (2) operationsLoop.simps) simp

lemma messageValues_word:
  assumes "plainWord v"
  shows "parseSearchMessageOperations v operations = pushValue ''message:'' v operations"
proof -
  from assms obtain c r where vc: "v = c # r" and q: "c \<noteq> CHR 0x22"
    by (cases v) (auto simp: plainWord_def)
  from assms have "takeWhile (\<lambda>c. c \<noteq> CHR 0x08 \<and> \<not> isWhitespace c) v = v"
    by (auto simp: plainWord_def intro: takeWhile_eq_all_conv [THEN iffD2])
  with q have "valueAt v = Some (v, [])"
    by (simp add: valueAt_def quotedAt_def vc)
  then have "searchMessageValuesRegex_exec v = Some (v, [])" by (simp add: vc)
  then have "messageValuesLoop v operations = pushValue ''message:'' v operations"
    by (simp add: messageValuesLoop.simps [of v] messageValuesLoop.simps [of "[]"])
  with vc show ?thesis by (simp add: parseSearchMessageOperations_def)
qed

lemma searchQuery_afterValue:
  assumes "\<forall>(op, v) \<in> set (t # ts). op \<in> set searchOperators \<and> plainWord v"
  shows "afterValue (CHR '' '' # searchQuery (t # ts))"
proof -
  obtain op v where t: "t = (op, v)" by (cases t)
  with assms have "op \<in> set searchOperators" by simp
  moreover have "\<exists>u. searchQuery (t # ts) = op @ u" unfolding t by (cases ts) auto
  ultimately show ?thesis unfolding afterValue_def by blast
qed

lemma operationsLoop_term:
  assumes op: "op \<in> set searchOperators" and v: "plainWord v"
    and t: "afterValue t"
  shows "operationsLoop (op @ v @ t) operations
         = operationsLoop t (addOperation operations (op, v))"
proof -
  from v have c: "CHR '':'' \<notin> set v" by (auto simp: plainWord_def)
  have "operationsLoop (op @ v @ t) operations
        = operationsLoop (v @ t)
            (case map_of normalizeSearchOperatorsMap op of
               None \<Rightarrow> operations
             | Some op' \<Rightarrow>
                 if op' = ''message:'' then parseSearchMessageOperations v operations
                 else pushValue op' v operations)"
    by (subst operationsLoop.simps) (simp add: searchOperationRegex_exec_term [OF assms])
  also have "(case map_of normalizeSearchOperatorsMap op of
               None \<Rightarrow> operations
             | Some op' \<Rightarrow>
                 if op' = ''message:'' then parseSearchMessageOperations v operations
                 else pushValue op' v operations)
             = addOperation operations (op, v)"
    by (simp add: addOperation_def messageValues_word [OF v] split: option.split)
  also have "operationsLoop (v @ t) (addOperation operations (op, v))
             = operationsLoop t (addOperation operations (op, v))"
    by (rule operationsLoop_cong)
      (rule searchOperationRegex_exec_word [OF c afterValue_space [OF t]])
  finally show ?thesis .
qed

lemma operationsLoop_query:
  assumes "\<forall>(op, v) \<in> set terms. op \<in> set searchOperators \<and> plainWord v"
  shows "operationsLoop (searchQuery terms) operations = foldl addOperation operations terms"
  using assms
proof (induction terms arbitrary: operations rule: searchQuery.induct)
  case 1
  show ?case by (simp add: operationsLoop.simps [of "[]"])
next
  case (2 op v)
  then have op: "op \<in> set searchOperators" and v: "plainWord v" by simp_all
  have "afterValue []" by (simp add: afterValue_def)
  from operationsLoop_term [OF op v this, of operations]
  show ?case by (simp add: operationsLoop.simps [of "[]"])
next
  case (3 op v t ts)
  then have op: "op \<in> set searchOperators" and v: "plainWord v"
    and r: "\<forall>(op, v) \<in> set (t # ts). op \<in> set searchOperators \<and> plainWord v"
    by simp_all
  from operationsLoop_term [OF op v searchQuery_afterValue [OF r], of operations]
  have "operationsLoop (searchQuery ((op, v) # t # ts)) operations
        = operationsLoop (CHR '' '' # searchQuery (t # ts)) (addOperation operations (op, v))"
    by simp
  also have "\<dots> = operationsLoop (searchQuery (t # ts)) (addOperation operations (op, v))"
    by (rule operationsLoop_cong) (rule searchOperationRegex_exec_space)
  also have "\<dots> = foldl addOperation (addOperation operations (op, v)) (t # ts)"
    by (rule "3.IH" [OF r])
  finally show ?case by simp
qed

lemma searchMessageOperationRegex_exec_query:
  assumes "\<forall>(op, v) \<in> set terms. op \<in> set searchOperators \<and> plainWord v"
  shows "searchMessageOperationRegex_exec (searchQuery terms) = Some []"
proof (cases terms)
  case Nil
  then show ?thesis by simp
next
  case (Cons t ts)
  obtain op v where t: "t = (op, v)" by (cases t)
  with assms Cons have op: "op \<in> set searchOperators" by simp
  have "\<exists>u. searchQuery (t # ts) = op @ u" unfolding t by (cases ts) auto
  then obtain u where u: "searchQuery terms = op @ u" using Cons by blast
  from searchOperators_shape [OF op] obtain c r where o: "op = c # r" by (cases op) auto
  from operatorAt_operator [OF op, of u] have "stopsAt (op @ u)"
    by (simp add: stopsAt_def o)
  then show ?thesis unfolding u by (simp add: o)
qed

lemma parseSearchOperations_query:
  assumes "\<forall>(op, v) \<in> set terms. op \<in> set searchOperators \<and> plainWord v"
  shows "parseSearchOperations env (searchQuery terms) = foldl addOperation [] terms"
  by (simp add: parseSearchOperations_def searchMessageOperationRegex_exec_query [OF assms]
      operationsLoop_query [OF assms])

lemma map_of_pushValue:
  "map_of (pushValue k v operations) k'
   = (if k' = k then Some ((case map_of operations k of None \<Rightarrow> [] | Some vs \<Rightarrow> vs) @ [v])
      else map_of operations k')"
  by (simp add: pushValue_def Map_set_map_of split: option.split)

lemma map_of_foldl_addOperation:
  assumes "\<forall>k. map_of operations k \<noteq> Some []"
  shows "map_of (foldl addOperation operations terms) k
         = (case (case map_of operations k of None \<Rightarrow> [] | Some vs \<Rightarrow> vs)
                 @ map snd (filter (\<lambda>t. map_of normalizeSearchOperatorsMap (fst t) = Some k) terms) of
              [] \<Rightarrow> None
            | v # vs \<Rightarrow> Some (v # vs))"
  using assms
proof (induction terms arbitrary: operations)
  case Nil
  then show ?case by (cases "map_of operations k") (auto split: list.split)
next
  case (Cons t terms)
  have "\<forall>k. map_of (addOperation operations t) k \<noteq> Some []"
    using Cons.prems by (auto simp: addOperation_def map_of_pushValue split: option.split)
  from Cons.IH [OF this] show ?case
    by (auto simp: addOperation_def map_of_pushValue split: option.split)
qed

lemma keys_Map_set: "set (map fst (Map_set k v m)) = insert k (set (map fst m))"
  unfolding Map_set_keys by (auto simp del: set_map)

lemma keys_pushValue:
  "set (map fst (pushValue k v operations)) = insert k (set (map fst operations))"
  by (cases "map_of operations k") (simp_all only: pushValue_def option.case keys_Map_set)

lemma keys_messageValuesLoop:
  "set (map fst (messageValuesLoop message operations))
   \<subseteq> insert ''message:'' (set (map fst operations))"
proof (induction message operations rule: messageValuesLoop.induct)
  case (1 message operations)
  show ?case
  proof (cases "searchMessageValuesRegex_exec message")
    case None
    then show ?thesis by (subst messageValuesLoop.simps) auto
  next
    case (Some m)
    obtain v rest where m: "m = (v, rest)" by (cases m)
    from "1.IH" [OF Some m [symmetric]]
    have "set (map fst (messageValuesLoop rest (pushValue ''message:'' v operations)))
          \<subseteq> insert ''message:'' (set (map fst operations))"
      by (simp only: keys_pushValue insert_absorb2)
    then show ?thesis by (subst messageValuesLoop.simps) (simp only: Some m option.case prod.case)
  qed
qed

lemma keys_parseSearchMessageOperations:
  "set (map fst (parseSearchMessageOperations message operations))
   \<subseteq> insert ''message:'' (set (map fst operations))"
  unfolding parseSearchMessageOperations_def
  using keys_messageValuesLoop [of message operations]
  by (simp only: keys_pushValue split: if_split) blast

text \<open>The long forms of the operators.\<close>

lemma normalizeSearchOperatorsMap_range:
  assumes "map_of normalizeSearchOperatorsMap op = Some op'"
  shows "op' \<in> set [''message:'', ''author:'', ''commit:'', ''file:'', ''change:'']"
proof -
  from map_of_SomeD [OF assms] have "op' \<in> snd ` set normalizeSearchOperatorsMap" by force
  then show ?thesis unfolding normalizeSearchOperatorsMap_def by simp
qed

lemma keys_operationsLoop:
  assumes "set (map fst operations) \<subseteq> set [''message:'', ''author:'', ''commit:'', ''file:'', ''change:'']"
  shows "set (map fst (operationsLoop search operations))
         \<subseteq> set [''message:'', ''author:'', ''commit:'', ''file:'', ''change:'']"
  using assms
proof (induction search operations rule: operationsLoop.induct)
  case (1 search operations)
  let ?L = "set [''message:'', ''author:'', ''commit:'', ''file:'', ''change:'']"
  show ?case
  proof (cases "searchOperationRegex_exec search")
    case None
    then show ?thesis using "1.prems" by (subst operationsLoop.simps) (simp only: option.case)
  next
    case (Some m)
    obtain op v rest where m: "m = (op, v, rest)" by (cases m)
    let ?next = "case map_of normalizeSearchOperatorsMap op of
                   None \<Rightarrow> operations
                 | Some op' \<Rightarrow>
                     if op' = ''message:'' then parseSearchMessageOperations v operations
                     else pushValue op' v operations"
    have k: "set (map fst ?next) \<subseteq> ?L"
    proof (cases "map_of normalizeSearchOperatorsMap op")
      case None
      then show ?thesis using "1.prems" by (simp only: option.case)
    next
      case (Some op')
      note r = normalizeSearchOperatorsMap_range [OF Some]
      show ?thesis
      proof (cases "op' = ''message:''")
        case True
        have "insert ''message:'' (set (map fst operations)) \<subseteq> ?L"
          using "1.prems" by simp
        with keys_parseSearchMessageOperations [of v operations]
        have "set (map fst (parseSearchMessageOperations v operations)) \<subseteq> ?L" by (rule subset_trans)
        then show ?thesis by (simp only: Some option.case True simp_thms if_True)
      next
        case False
        have "insert op' (set (map fst operations)) \<subseteq> ?L" using "1.prems" r by blast
        then show ?thesis by (simp only: Some option.case False if_False keys_pushValue)
      qed
    qed
    have "set (map fst (operationsLoop rest ?next)) \<subseteq> ?L"
      by (rule "1.IH" [OF Some _ _ k]) (simp_all add: m)
    then show ?thesis by (subst operationsLoop.simps) (simp only: Some m option.case prod.case)
  qed
qed

lemma keys_parseSearchOperations:
  "set (map fst (parseSearchOperations env search))
   \<subseteq> set [''message:'', ''author:'', ''commit:'', ''file:'', ''change:'']"
proof -
  let ?L = "set [''message:'', ''author:'', ''commit:'', ''file:'', ''change:'']"
  let ?first = "case searchMessageOperationRegex_exec search of
                  None \<Rightarrow> []
                | Some v \<Rightarrow>
                    if v = [] then []
                    else if isSha env v then pushValue ''commit:'' v []
                    else parseSearchMessageOperations v []"
  have "set (map fst ?first) \<subseteq> ?L"
  proof (cases "searchMessageOperationRegex_exec search")
    case None
    then show ?thesis by simp
  next
    case (Some v)
    have a: "set (map fst (parseSearchMessageOperations v [])) \<subseteq> ?L"
      using keys_parseSearchMessageOperations [of v "[]"] by auto
    have c: "set (map fst (pushValue ''commit:'' v [])) \<subseteq> ?L"
      by (simp only: keys_pushValue) simp
    have e: "set (map fst ([] :: (string \<times> string list) list)) \<subseteq> ?L" by simp
    show ?thesis
    proof (cases "v = []")
      case True
      with e show ?thesis by (simp only: Some option.case simp_thms if_True)
    next
      case False
      show ?thesis
      proof (cases "isSha env v")
        case True
        with c \<open>v \<noteq> []\<close> show ?thesis by (simp only: Some option.case if_True if_False)
      next
        case False
        with a \<open>v \<noteq> []\<close> show ?thesis by (simp only: Some option.case if_False)
      qed
    qed
  qed
  from keys_operationsLoop [OF this] show ?thesis
    by (simp only: parseSearchOperations_def Let_def)
qed

lemma longForm_table:
  "op \<in> set searchOperators \<Longrightarrow> map_of normalizeSearchOperatorsMap op = Some (longForm op)"
  unfolding searchOperators_def
  by (elim set_ConsD [THEN disjE]) (simp_all add: normalizeSearchOperatorsMap_def longForm_def)

lemma addOperation_longForm:
  "op \<in> set searchOperators \<Longrightarrow>
   addOperation operations (op, v) = pushValue (longForm op) v operations"
  by (simp add: addOperation_def longForm_table)

lemma lookahead_prefix:
  assumes "\<forall>c \<in> set w. \<not> isWhitespace c \<and> c \<noteq> CHR '':''" and "t = [] \<or> isWhitespace (hd t)"
  shows "lookahead (w @ t) = (if w = [] then lookahead t else map_option ((@) w) (lookahead t))"
  using assms(1)
proof (induction w)
  case Nil
  show ?case by simp
next
  case (Cons c w)
  from Cons.prems have "CHR '':'' \<notin> set (c # w)" by auto
  from operatorAt_word [OF this assms(2)] have o: "operatorAt (c # w @ t) = None" by simp
  from Cons.prems have ws: "\<not> isWhitespace c" by simp
  then have lt: "\<not> isLineTerminator c" by (auto simp: isWhitespace_def isLineTerminator_def)
  from o ws have ns: "\<not> stopsAt (c # w @ t)" by (simp add: stopsAt_def)
  from Cons have ih: "lookahead (w @ t)
                      = (if w = [] then lookahead t else map_option ((@) w) (lookahead t))"
    by simp
  show ?case
    using ns lt ih by (cases "lookahead t") auto
qed

text \<open>Words, and what may follow a word in a query.\<close>

lemma joinWords_Cons:
  "joinWords (w # ws) = w @ (if ws = [] then [] else CHR '' '' # joinWords ws)"
  by (cases ws) simp_all

lemma joinWords_head:
  assumes "\<forall>w \<in> set ws. plainWord w" and "ws \<noteq> []"
  shows "\<exists>c r. joinWords ws @ t = c # r \<and> \<not> isWhitespace c \<and> c \<noteq> CHR 0x22 \<and>
           operatorAt (joinWords ws @ t) = None \<or> \<not> (t = [] \<or> isWhitespace (hd t))"
proof (cases "t = [] \<or> isWhitespace (hd t)")
  case False
  then show ?thesis by simp
next
  case True
  from assms obtain w ws' where ws: "ws = w # ws'" and pw: "plainWord w" by (cases ws) auto
  from pw obtain c r where w: "w = c # r" and c: "\<not> isWhitespace c" "c \<noteq> CHR 0x22"
    by (cases w) (auto simp: plainWord_def)
  from pw have nc: "CHR '':'' \<notin> set w" by (auto simp: plainWord_def)
  let ?t = "(if ws' = [] then [] else CHR '' '' # joinWords ws') @ t"
  have f: "?t = [] \<or> isWhitespace (hd ?t)" using True by (auto simp: isWhitespace_def)
  have e: "joinWords ws @ t = w @ ?t" unfolding ws joinWords_Cons by simp
  from operatorAt_word [OF nc f] have "operatorAt (joinWords ws @ t) = None" unfolding e .
  moreover have "joinWords ws @ t = c # (r @ ?t)" unfolding e w by simp
  ultimately show ?thesis using c by blast
qed

lemma lookahead_space:
  assumes "operatorAt u = None" and "u \<noteq> []"
  shows "lookahead (CHR '' '' # u) = map_option ((#) CHR '' '') (lookahead u)"
proof -
  have "operatorAt (CHR '' '' # u) = None"
    using operatorAt_word [of "[]" "CHR '' '' # u"] by (simp add: isWhitespace_def)
  with assms have "\<not> stopsAt (CHR '' '' # u)" by (simp add: stopsAt_def)
  then show ?thesis by (simp add: isLineTerminator_def)
qed

lemma lookahead_words:
  assumes "\<forall>w \<in> set ws. plainWord w" and "afterValue t"
  shows "lookahead (joinWords ws @ t) = Some (joinWords ws)"
  using assms(1)
proof (induction ws rule: joinWords.induct)
  case 1
  from stopsAt_afterValue [OF assms(2)] show ?case by (cases t) simp_all
next
  case (2 w)
  then have "\<forall>c \<in> set w. \<not> isWhitespace c \<and> c \<noteq> CHR '':''" by (simp add: plainWord_def)
  from lookahead_word [OF this assms(2)] show ?case by simp
next
  case (3 w v ws)
  then have pw: "\<forall>c \<in> set w. \<not> isWhitespace c \<and> c \<noteq> CHR '':''" and wn: "w \<noteq> []"
    and r: "\<forall>w \<in> set (v # ws). plainWord w"
    by (simp_all add: plainWord_def)
  let ?u = "joinWords (v # ws) @ t"
  from joinWords_head [OF r, of t] afterValue_space [OF assms(2)]
  have o: "operatorAt ?u = None" and un: "?u \<noteq> []" by auto
  have sp: "CHR '' '' # ?u = [] \<or> isWhitespace (hd (CHR '' '' # ?u))"
    by (simp add: isWhitespace_def)
  have "lookahead (joinWords (w # v # ws) @ t) = lookahead (w @ CHR '' '' # ?u)" by simp
  also have "\<dots> = map_option ((@) w) (lookahead (CHR '' '' # ?u))"
    using lookahead_prefix [OF pw sp] wn by simp
  also have "\<dots> = map_option ((@) w) (map_option ((#) CHR '' '') (lookahead ?u))"
    by (simp only: lookahead_space [OF o un])
  also have "\<dots> = Some (w @ CHR '' '' # joinWords (v # ws))"
    using "3.IH" [OF r] by simp
  finally show ?case by simp
qed

lemma joinWords_nonempty:
  assumes "\<forall>w \<in> set ws. plainWord w" and "ws \<noteq> []"
  shows "joinWords ws \<noteq> []"
proof -
  from assms obtain w ws' where "ws = w # ws'" and "plainWord w" by (cases ws) auto
  then show ?thesis by (simp add: joinWords_Cons plainWord_def)
qed

lemma searchMessageOperationRegex_exec_words:
  assumes "\<forall>w \<in> set ws. plainWord w" and "ws \<noteq> []" and "afterValue t"
  shows "searchMessageOperationRegex_exec (joinWords ws @ t) = Some (joinWords ws)"
proof -
  from joinWords_nonempty [OF assms(1,2)] obtain c r where "joinWords ws @ t = c # r"
    by (cases "joinWords ws") auto
  with lookahead_words [OF assms(1,3)] show ?thesis by simp
qed

text \<open>The words of a free text become one value each.\<close>

lemma valueAt_word:
  assumes "plainWord w" and "t = [] \<or> isWhitespace (hd t)"
  shows "valueAt (w @ t) = Some (w, t)"
proof -
  from assms(1) obtain c r where w: "w = c # r" and q: "c \<noteq> CHR 0x22"
    by (cases w) (auto simp: plainWord_def)
  from assms(1) have a: "\<forall>c \<in> set w. c \<noteq> CHR 0x08 \<and> \<not> isWhitespace c"
    by (auto simp: plainWord_def)
  have "takeWhile (\<lambda>c. c \<noteq> CHR 0x08 \<and> \<not> isWhitespace c) t = []"
    using assms(2) by (cases t) auto
  with a have "takeWhile (\<lambda>c. c \<noteq> CHR 0x08 \<and> \<not> isWhitespace c) (w @ t) = w"
    by simp
  with q show ?thesis by (simp add: valueAt_def quotedAt_def w)
qed

lemma messageValuesLoop_cong:
  "searchMessageValuesRegex_exec s = searchMessageValuesRegex_exec s' \<Longrightarrow>
   messageValuesLoop s operations = messageValuesLoop s' operations"
  by (subst messageValuesLoop.simps, subst (2) messageValuesLoop.simps) simp

lemma searchMessageValuesRegex_exec_space:
  "searchMessageValuesRegex_exec (CHR '' '' # t) = searchMessageValuesRegex_exec t"
  by (simp add: valueAt_def quotedAt_def isWhitespace_def)

lemma messageValuesLoop_words:
  assumes "\<forall>w \<in> set ws. plainWord w"
  shows "messageValuesLoop (joinWords ws) operations
         = foldl (\<lambda>ops w. pushValue ''message:'' w ops) operations ws"
  using assms
proof (induction ws arbitrary: operations rule: joinWords.induct)
  case 1
  show ?case by (simp add: messageValuesLoop.simps [of "[]"])
next
  case (2 w)
  then have pw: "plainWord w" by simp
  then obtain c r where w: "w = c # r" by (cases w) (auto simp: plainWord_def)
  from valueAt_word [OF pw, of "[]"] have "searchMessageValuesRegex_exec w = Some (w, [])"
    by (simp add: w)
  then show ?case
    by (simp add: messageValuesLoop.simps [of w] messageValuesLoop.simps [of "[]"])
next
  case (3 w v ws)
  then have pw: "plainWord w" and r: "\<forall>w \<in> set (v # ws). plainWord w" by simp_all
  from pw obtain c r' where w: "w = c # r'" by (cases w) (auto simp: plainWord_def)
  let ?t = "CHR '' '' # joinWords (v # ws)"
  have "valueAt (w @ ?t) = Some (w, ?t)"
    by (rule valueAt_word [OF pw]) (simp add: isWhitespace_def)
  then have e: "searchMessageValuesRegex_exec (joinWords (w # v # ws)) = Some (w, ?t)"
    by (simp add: w)
  have "messageValuesLoop (joinWords (w # v # ws)) operations
        = messageValuesLoop ?t (pushValue ''message:'' w operations)"
    by (subst messageValuesLoop.simps) (simp only: e option.case prod.case)
  also have "\<dots> = messageValuesLoop (joinWords (v # ws)) (pushValue ''message:'' w operations)"
    by (rule messageValuesLoop_cong) (rule searchMessageValuesRegex_exec_space)
  also have "\<dots> = foldl (\<lambda>ops w. pushValue ''message:'' w ops)
                      (pushValue ''message:'' w operations) (v # ws)"
    by (rule "3.IH" [OF r])
  finally show ?case by simp
qed

text \<open>The loop passes over the free text.\<close>

lemma searchOperationRegex_exec_words:
  assumes "\<forall>w \<in> set ws. plainWord w" and "t = [] \<or> isWhitespace (hd t)"
  shows "searchOperationRegex_exec (joinWords ws @ t) = searchOperationRegex_exec t"
  using assms(1)
proof (induction ws rule: joinWords.induct)
  case 1
  show ?case by simp
next
  case (2 w)
  then have "CHR '':'' \<notin> set w" by (auto simp: plainWord_def)
  from searchOperationRegex_exec_word [OF this assms(2)] show ?case by simp
next
  case (3 w v ws)
  then have nc: "CHR '':'' \<notin> set w" and r: "\<forall>w \<in> set (v # ws). plainWord w"
    by (auto simp: plainWord_def)
  let ?u = "joinWords (v # ws) @ t"
  have "searchOperationRegex_exec (joinWords (w # v # ws) @ t)
        = searchOperationRegex_exec (w @ CHR '' '' # ?u)"
    by simp
  also have "\<dots> = searchOperationRegex_exec (CHR '' '' # ?u)"
    by (rule searchOperationRegex_exec_word [OF nc]) (simp add: isWhitespace_def)
  also have "\<dots> = searchOperationRegex_exec ?u" by (rule searchOperationRegex_exec_space)
  also have "\<dots> = searchOperationRegex_exec t" by (rule "3.IH" [OF r])
  finally show ?case .
qed

lemma foldl_pushValue:
  "foldl (\<lambda>ops w. pushValue k w ops) [(k, vs)] ws = [(k, vs @ ws)]"
  by (induction ws arbitrary: vs) (simp_all add: pushValue_def Map_set_def)

lemma foldl_pushValue_Nil:
  assumes "ws \<noteq> []"
  shows "foldl (\<lambda>ops w. pushValue k w ops) [] ws = [(k, ws)]"
proof (cases ws)
  case Nil
  with assms show ?thesis by simp
next
  case (Cons a list)
  have "pushValue k a [] = [(k, [a])]" by (simp add: pushValue_def Map_set_def)
  with foldl_pushValue [of k "[a]" list] show ?thesis by (simp add: Cons)
qed

lemma parseSearchOperations_textQuery:
  assumes ws: "\<forall>w \<in> set ws. plainWord w"
    and ts: "\<forall>(op, v) \<in> set terms. op \<in> set searchOperators \<and> plainWord v"
  shows "parseSearchOperations env (textQuery ws terms)
         = foldl addOperation (textOperations env ws) terms"
proof (cases "ws = []")
  case True
  then show ?thesis
    by (simp add: textQuery_def textOperations_def parseSearchOperations_query [OF ts])
next
  case False
  let ?t = "if terms = [] then [] else CHR '' '' # searchQuery terms"
  have q: "textQuery ws terms = joinWords ws @ ?t" using False by (simp add: textQuery_def)
  have av: "afterValue ?t"
  proof (cases terms)
    case Nil
    then show ?thesis by (simp add: afterValue_def)
  next
    case (Cons t' ts')
    with ts searchQuery_afterValue [of t' ts'] show ?thesis by simp
  qed
  have jn: "joinWords ws \<noteq> []" by (rule joinWords_nonempty [OF ws False])
  have first: "searchMessageOperationRegex_exec (joinWords ws @ ?t) = Some (joinWords ws)"
    by (rule searchMessageOperationRegex_exec_words [OF ws False av])
  have msg: "parseSearchMessageOperations (joinWords ws) [] = [(''message:'', ws)]"
    using jn False
    by (simp add: parseSearchMessageOperations_def messageValuesLoop_words [OF ws]
        foldl_pushValue_Nil)
  have lead: "(if joinWords ws = [] then []
               else if isSha env (joinWords ws) then pushValue ''commit:'' (joinWords ws) []
               else parseSearchMessageOperations (joinWords ws) [])
              = textOperations env ws"
    using jn False by (simp add: msg textOperations_def pushValue_def Map_set_def)
  have "operationsLoop (joinWords ws @ ?t) (textOperations env ws)
        = operationsLoop ?t (textOperations env ws)"
    by (rule operationsLoop_cong)
      (rule searchOperationRegex_exec_words [OF ws afterValue_space [OF av]])
  also have "\<dots> = foldl addOperation (textOperations env ws) terms"
  proof (cases "terms = []")
    case True
    then show ?thesis by (simp add: operationsLoop.simps [of "[]"])
  next
    case False
    then have "operationsLoop ?t (textOperations env ws)
               = operationsLoop (searchQuery terms) (textOperations env ws)"
      using operationsLoop_cong [OF searchOperationRegex_exec_space] by simp
    then show ?thesis by (simp only: operationsLoop_query [OF ts])
  qed
  finally have loop: "operationsLoop (joinWords ws @ ?t) (textOperations env ws)
                      = foldl addOperation (textOperations env ws) terms" .
  show ?thesis
    unfolding q parseSearchOperations_def Let_def first option.case lead loop ..
qed

lemma map_of_textOperations:
  assumes "\<forall>w \<in> set ws. plainWord w"
  shows "(case map_of (textOperations env ws) k of None \<Rightarrow> [] | Some vs \<Rightarrow> vs) = textValues env ws k"
    and "map_of (textOperations env ws) k \<noteq> Some []"
  by (auto simp: textOperations_def textValues_def)

lemma filter_longForm:
  assumes "\<forall>(op, v) \<in> set terms. op \<in> set searchOperators \<and> plainWord v"
  shows "filter (\<lambda>t. map_of normalizeSearchOperatorsMap (fst t) = Some k) terms
         = filter (\<lambda>t. longForm (fst t) = k) terms"
proof (rule filter_cong [OF refl])
  fix t
  assume "t \<in> set terms"
  with assms have "fst t \<in> set searchOperators" by (cases t) auto
  from longForm_table [OF this]
  show "(map_of normalizeSearchOperatorsMap (fst t) = Some k) = (longForm (fst t) = k)" by simp
qed

text \<open>
  C7. \<open>parseSearchOperations\<close> turns a query into operations under the long forms of the
  operators, which are \<open>message:\<close> for \<open>=:\<close>, \<open>author:\<close> for \<open>@:\<close>, \<open>commit:\<close> for \<open>#:\<close>,
  \<open>file:\<close> for \<open>?:\<close> and \<open>change:\<close> for \<open>~:\<close>. For every query, the keys of the result are
  among the five long forms. For every query made of free text (plain words, one space
  between two of them) followed by operations (each an operator in its short or long
  form directly followed by a plain word, one space before each), the result has under each
  long form first what the free text gives (the whole text under \<open>commit:\<close> when it is a
  sha, otherwise its words under \<open>message:\<close>) and then the values of the operations whose
  operator has this long form, in their order, and it has no entry for a long form without
  values. The table of the code sends every operator to its long form, and the empty
  operator to \<open>message:\<close>. In particular, \<open>@:alice #:deadbeef123\<close> yields exactly \<open>author:\<close>
  with \<open>alice\<close> and \<open>commit:\<close> with \<open>deadbeef123\<close>, and no \<open>message:\<close> entry.
\<close>

theorem C7_parseSearchOperations_typed_operations:
  "parseSearchOperations env ''@:alice #:deadbeef123''
     = [(''author:'', [''alice'']), (''commit:'', [''deadbeef123''])] \<and>
   map_of (parseSearchOperations env ''@:alice #:deadbeef123'') ''message:'' = None \<and>
   set (map fst (parseSearchOperations env search))
     \<subseteq> set [''message:'', ''author:'', ''commit:'', ''file:'', ''change:''] \<and>
   map_of normalizeSearchOperatorsMap [] = Some ''message:'' \<and>
   (op \<in> set searchOperators \<longrightarrow> map_of normalizeSearchOperatorsMap op = Some (longForm op)) \<and>
   ((\<forall>w \<in> set ws. plainWord w) \<and>
    (\<forall>(op, v) \<in> set terms. op \<in> set searchOperators \<and> plainWord v) \<longrightarrow>
    map_of (parseSearchOperations env (textQuery ws terms)) k
      = (case textValues env ws k @ map snd (filter (\<lambda>t. longForm (fst t) = k) terms) of
           [] \<Rightarrow> None
         | v # vs \<Rightarrow> Some (v # vs)))"
proof (intro conjI impI)
  show e: "parseSearchOperations env ''@:alice #:deadbeef123''
        = [(''author:'', [''alice'']), (''commit:'', [''deadbeef123''])]"
    by code_simp
  show "map_of (parseSearchOperations env ''@:alice #:deadbeef123'') ''message:'' = None"
    unfolding e by simp
  show "set (map fst (parseSearchOperations env search))
        \<subseteq> set [''message:'', ''author:'', ''commit:'', ''file:'', ''change:'']"
    by (rule keys_parseSearchOperations)
  show "map_of normalizeSearchOperatorsMap [] = Some ''message:''"
    by (simp add: normalizeSearchOperatorsMap_def)
next
  assume "op \<in> set searchOperators"
  then show "map_of normalizeSearchOperatorsMap op = Some (longForm op)" by (rule longForm_table)
next
  assume a: "(\<forall>w \<in> set ws. plainWord w) \<and>
             (\<forall>(op, v) \<in> set terms. op \<in> set searchOperators \<and> plainWord v)"
  then have ws: "\<forall>w \<in> set ws. plainWord w"
    and ts: "\<forall>(op, v) \<in> set terms. op \<in> set searchOperators \<and> plainWord v"
    by simp_all
  have "\<forall>k. map_of (textOperations env ws) k \<noteq> Some []"
    using map_of_textOperations(2) [OF ws] by blast
  from map_of_foldl_addOperation [OF this, of terms k]
  show "map_of (parseSearchOperations env (textQuery ws terms)) k
        = (case textValues env ws k @ map snd (filter (\<lambda>t. longForm (fst t) = k) terms) of
             [] \<Rightarrow> None
           | v # vs \<Rightarrow> Some (v # vs))"
    unfolding parseSearchOperations_textQuery [OF ws ts] map_of_textOperations(1) [OF ws]
      filter_longForm [OF ts] .
qed

theorem C7_parseSearchOperations_typed_operations_witness:
  "plainWord ''fix'' \<and> plainWord ''bug'' \<and> plainWord ''typo'' \<and> plainWord ''alice'' \<and>
   plainWord ''deadbeef123'' \<and> plainWord ''src'' \<and> plainWord ''foo'' \<and> plainWord ''bob'' \<and>
   \<not> isSha demoEnv ''fix bug'' \<and>
   map_of (parseSearchOperations demoEnv
             ''fix bug =:typo @:alice #:deadbeef123 ?:src ~:foo author:bob'') ''message:''
     = Some [''fix'', ''bug'', ''typo''] \<and>
   map_of (parseSearchOperations demoEnv
             ''fix bug =:typo @:alice #:deadbeef123 ?:src ~:foo author:bob'') ''author:''
     = Some [''alice'', ''bob''] \<and>
   map_of (parseSearchOperations demoEnv
             ''fix bug =:typo @:alice #:deadbeef123 ?:src ~:foo author:bob'') ''commit:''
     = Some [''deadbeef123''] \<and>
   map_of (parseSearchOperations demoEnv
             ''fix bug =:typo @:alice #:deadbeef123 ?:src ~:foo author:bob'') ''file:''
     = Some [''src''] \<and>
   map_of (parseSearchOperations demoEnv
             ''fix bug =:typo @:alice #:deadbeef123 ?:src ~:foo author:bob'') ''change:''
     = Some [''foo''] \<and>
   plainWord ''0123456789abcdef0123456789abcdef01234567'' \<and>
   isSha demoEnv ''0123456789abcdef0123456789abcdef01234567'' \<and>
   map_of (parseSearchOperations demoEnv ''0123456789abcdef0123456789abcdef01234567'') ''commit:''
     = Some [''0123456789abcdef0123456789abcdef01234567''] \<and>
   map_of (parseSearchOperations demoEnv ''0123456789abcdef0123456789abcdef01234567'') ''message:''
     = None \<and>
   map_of normalizeSearchOperatorsMap ''~:'' = Some ''change:''"
proof -
  let ?ws = "[''fix'', ''bug'']"
  let ?terms = "[(''=:'', ''typo''), (''@:'', ''alice''), (''#:'', ''deadbeef123''),
                 (''?:'', ''src''), (''~:'', ''foo''), (''author:'', ''bob'')]"
  let ?sha = "''0123456789abcdef0123456789abcdef01234567''"
  have pw: "plainWord ''fix''" "plainWord ''bug''" "plainWord ''typo''" "plainWord ''alice''"
    "plainWord ''deadbeef123''" "plainWord ''src''" "plainWord ''foo''" "plainWord ''bob''"
    "plainWord ?sha"
    by (simp_all add: plainWord_def isWhitespace_def)
  have ops: "''=:'' \<in> set searchOperators" "''@:'' \<in> set searchOperators"
    "''#:'' \<in> set searchOperators" "''?:'' \<in> set searchOperators"
    "''~:'' \<in> set searchOperators" "''author:'' \<in> set searchOperators"
    by (simp_all add: searchOperators_def)
  have h: "(\<forall>w \<in> set ?ws. plainWord w) \<and>
           (\<forall>(op, v) \<in> set ?terms. op \<in> set searchOperators \<and> plainWord v)"
    using pw ops by simp
  have hs: "(\<forall>w \<in> set [?sha]. plainWord w) \<and>
            (\<forall>(op, v) \<in> set []. op \<in> set searchOperators \<and> plainWord v)"
    using pw by simp
  have q: "textQuery ?ws ?terms = ''fix bug =:typo @:alice #:deadbeef123 ?:src ~:foo author:bob''"
    by (simp add: textQuery_def)
  have qs: "textQuery [?sha] [] = ?sha" by (simp add: textQuery_def)
  have ns: "\<not> isSha demoEnv (joinWords ?ws)" by (simp add: demoEnv_def)
  have ns': "\<not> isSha demoEnv ''fix bug''" by (simp add: demoEnv_def)
  have sh: "isSha demoEnv ?sha" by (simp add: demoEnv_def)
  have sh': "isSha demoEnv (joinWords [?sha])" using sh by simp
  note T = C7_parseSearchOperations_typed_operations
    [where env = demoEnv and ws = ?ws and terms = ?terms and search = "[]" and op = "''~:''",
      THEN conjunct2, THEN conjunct2, THEN conjunct2, THEN conjunct2]
  note L = T [THEN conjunct2, THEN mp, OF h, unfolded q]
  have m: "map_of (parseSearchOperations demoEnv
                    ''fix bug =:typo @:alice #:deadbeef123 ?:src ~:foo author:bob'') ''message:''
           = Some [''fix'', ''bug'', ''typo'']"
    unfolding L [of "''message:''"] using ns by (simp add: textValues_def longForm_def)
  have a: "map_of (parseSearchOperations demoEnv
                    ''fix bug =:typo @:alice #:deadbeef123 ?:src ~:foo author:bob'') ''author:''
           = Some [''alice'', ''bob'']"
    unfolding L [of "''author:''"] using ns by (simp add: textValues_def longForm_def)
  have c: "map_of (parseSearchOperations demoEnv
                    ''fix bug =:typo @:alice #:deadbeef123 ?:src ~:foo author:bob'') ''commit:''
           = Some [''deadbeef123'']"
    unfolding L [of "''commit:''"] using ns by (simp add: textValues_def longForm_def)
  have f: "map_of (parseSearchOperations demoEnv
                    ''fix bug =:typo @:alice #:deadbeef123 ?:src ~:foo author:bob'') ''file:''
           = Some [''src'']"
    unfolding L [of "''file:''"] using ns by (simp add: textValues_def longForm_def)
  have g: "map_of (parseSearchOperations demoEnv
                    ''fix bug =:typo @:alice #:deadbeef123 ?:src ~:foo author:bob'') ''change:''
           = Some [''foo'']"
    unfolding L [of "''change:''"] using ns by (simp add: textValues_def longForm_def)
  note S = C7_parseSearchOperations_typed_operations
    [where env = demoEnv and ws = "[?sha]" and terms = "[]" and search = "[]" and op = "''~:''",
      THEN conjunct2, THEN conjunct2, THEN conjunct2, THEN conjunct2, THEN conjunct2, THEN mp,
      OF hs, unfolded qs]
  have sc: "map_of (parseSearchOperations demoEnv ?sha) ''commit:'' = Some [?sha]"
    unfolding S [of "''commit:''"] using sh' by (simp add: textValues_def)
  have sm: "map_of (parseSearchOperations demoEnv ?sha) ''message:'' = None"
    unfolding S [of "''message:''"] using sh' by (simp add: textValues_def)
  have t: "map_of normalizeSearchOperatorsMap ''~:'' = Some ''change:''"
    using T [THEN conjunct1] ops by (simp add: longForm_def)
  show ?thesis
    using pw ns' m a c f g sh sc sm t by (intro conjI) blast+
qed

end
